theory Spec2Isabelle
  imports Complex_Main "HOL-Library.Word"
begin

section \<open>jestat: a small perf stat on top of the jevents session library\<close>

text \<open>
  The program under study is \<^verbatim>\<open>jevents/examples/jestat.c\<close>. It parses its options,
  hands event specifications to the jevents session library, forks the program to
  measure, opens the counters, waits, reads the counters and prints them, summed
  over the CPUs or CPU by CPU.

  The session library (\<^verbatim>\<open>jsession.h\<close>: \<^verbatim>\<open>alloc_eventlist\<close>, \<^verbatim>\<open>parse_events\<close>,
  \<^verbatim>\<open>setup_events_cpumask\<close>, \<^verbatim>\<open>read_all_events\<close>, \<^verbatim>\<open>event_scaled_value\<close>,
  \<^verbatim>\<open>print_event_list_attr\<close>) is called by jestat.c but is not part of the sources
  at hand. The functions of jestat.c take the library as a parameter; where a
  property is about a library function itself, that function is modelled from the
  specification and marked so.
\<close>

subsection \<open>Data\<close>

type_synonym u64 = "64 word"

text \<open>
  jestat.c reads four things of the library's structures: \<^verbatim>\<open>el->eventlist\<close> (the
  chain of events, followed through \<^verbatim>\<open>e->next\<close>), \<^verbatim>\<open>el->num_cpus\<close>,
  \<^verbatim>\<open>e->efd[i].fd\<close>, and the two names \<^verbatim>\<open>e->extra.name\<close> and \<^verbatim>\<open>e->event\<close>.
  The chain is a list here, and so is the array \<^verbatim>\<open>efd\<close>, which the library allocates
  with \<^verbatim>\<open>num_cpus\<close> entries for every event; the loops of jestat.c index it below
  \<^verbatim>\<open>num_cpus\<close> only. A file descriptor below zero is the sentinel of a handle that was
  not opened. A counter handle also holds the last snapshot read from the kernel (raw
  count, enabled time, running time); \<open>None\<close> stands for a handle whose snapshot is
  unavailable.
\<close>

record efd =
  fd :: int
  val :: "(u64 \<times> u64 \<times> u64) option"

record event =
  event :: string
  extra_name :: "string option"
  efd :: "efd list"

record eventlist =
  eventlist :: "event list"
  num_cpus :: int

text \<open>
  What a run does to the outside, in order. Calls into the library carry their
  arguments and their return value; lines written to stdout carry the fields that
  \<^verbatim>\<open>printf\<close> formats. A time stamp is a number of seconds.
\<close>

datatype action =
    Parse_events eventlist string int
  | Usage
  | Stderr string
  | Pipe
  | Signal_ign_sigchld
  | Fork int
  | Perror string
  | Child_read_pipe
  | Child_pause
  | Execvp "string list"
  | Setup_events_cpumask eventlist bool int "string option" int
  | Print_event_list_attr "string list"
  | Signal_sigint
  | Sigaction_sigalrm
  | Setitimer int int
  | Write_pipe
  | Waitpid int int
  | Pause int
  | Read_all_events nat
  | Gettime rat
  | Event_scaled_value event nat
  | Printf_ts rat
  | Printf_aggr string u64
  | Printf_cpu nat string u64

datatype outcome = Exit int | Blocked | Replaced

subsection \<open>Printing (jestat.c, lines 52 to 91)\<close>

text \<open>\<^verbatim>\<open>e->extra.name ? e->extra.name : e->event\<close>\<close>

definition event_label :: "event \<Rightarrow> string" where
  "event_label e = (case extra_name e of Some n \<Rightarrow> n | None \<Rightarrow> event e)"

text \<open>
  The inner loop of \<^verbatim>\<open>print_data_aggr\<close>: \<^verbatim>\<open>v += event_scaled_value(e, i)\<close> for the
  CPUs still to visit, \<open>v\<close> being the sum so far. The addition is the one of
  \<^verbatim>\<open>uint64_t\<close>. The function returns the calls it made and the final sum.
\<close>

primrec aggr_loop ::
  "(event \<Rightarrow> nat \<Rightarrow> u64) \<Rightarrow> event \<Rightarrow> nat list \<Rightarrow> u64 \<Rightarrow> action list \<times> u64" where
  "aggr_loop esv e [] v = ([], v)"
| "aggr_loop esv e (i # cpus) v =
     (let (tr, v') = aggr_loop esv e cpus (v + esv e i)
      in (Event_scaled_value e i # tr, v'))"

definition print_ts_actions :: "rat \<Rightarrow> bool \<Rightarrow> action list" where
  "print_ts_actions ts print_ts = (if print_ts then [Printf_ts ts] else [])"

definition print_event_aggr ::
  "(event \<Rightarrow> nat \<Rightarrow> u64) \<Rightarrow> int \<Rightarrow> rat \<Rightarrow> bool \<Rightarrow> event \<Rightarrow> action list" where
  "print_event_aggr esv ncpus ts print_ts e =
     (let (tr, v) = aggr_loop esv e [0 ..< nat ncpus] 0
      in tr @ print_ts_actions ts print_ts @ [Printf_aggr (event_label e) v])"

definition print_data_aggr ::
  "(event \<Rightarrow> nat \<Rightarrow> u64) \<Rightarrow> eventlist \<Rightarrow> rat \<Rightarrow> bool \<Rightarrow> action list" where
  "print_data_aggr esv el ts print_ts =
     concat (map (print_event_aggr esv (num_cpus el) ts print_ts) (eventlist el))"

text \<open>
  The body of the inner loop of \<^verbatim>\<open>print_data_no_aggr\<close> for a handle that is not
  passed over: the value is computed, then the line is printed.
\<close>

definition cpu_line ::
  "(event \<Rightarrow> nat \<Rightarrow> u64) \<Rightarrow> rat \<Rightarrow> bool \<Rightarrow> event \<Rightarrow> nat \<Rightarrow> action list" where
  "cpu_line esv ts print_ts e i =
     Event_scaled_value e i # print_ts_actions ts print_ts
     @ [Printf_cpu i (event_label e) (esv e i)]"

text \<open>
  The inner loop of \<^verbatim>\<open>print_data_no_aggr\<close>: a handle whose \<^verbatim>\<open>fd\<close> is negative is
  passed over by \<^verbatim>\<open>continue\<close>, before anything is computed for it.
\<close>

primrec no_aggr_loop ::
  "(event \<Rightarrow> nat \<Rightarrow> u64) \<Rightarrow> rat \<Rightarrow> bool \<Rightarrow> event \<Rightarrow> nat list \<Rightarrow> action list" where
  "no_aggr_loop esv ts print_ts e [] = []"
| "no_aggr_loop esv ts print_ts e (i # cpus) =
     (if fd (efd e ! i) < 0 then no_aggr_loop esv ts print_ts e cpus
      else cpu_line esv ts print_ts e i @ no_aggr_loop esv ts print_ts e cpus)"

definition print_data_no_aggr ::
  "(event \<Rightarrow> nat \<Rightarrow> u64) \<Rightarrow> eventlist \<Rightarrow> rat \<Rightarrow> bool \<Rightarrow> action list" where
  "print_data_no_aggr esv el ts print_ts =
     concat (map (\<lambda>e. no_aggr_loop esv ts print_ts e [0 ..< nat (num_cpus el)]) (eventlist el))"

definition print_data ::
  "(event \<Rightarrow> nat \<Rightarrow> u64) \<Rightarrow> eventlist \<Rightarrow> rat \<Rightarrow> bool \<Rightarrow> bool \<Rightarrow> action list" where
  "print_data esv el ts print_ts no_aggr =
     (if no_aggr then print_data_no_aggr esv el ts print_ts
      else print_data_aggr esv el ts print_ts)"

subsection \<open>The library's read and scale engine\<close>

text \<open>
  Modelled from the spec: \<^verbatim>\<open>event_scaled_value\<close> is a function of the session library
  and missing from the sources. The specification gives the scaled value of a handle as
  \<^verbatim>\<open>raw_count * (enabled_time / running_time)\<close> when \<^verbatim>\<open>running_time > 0\<close>, truncated
  to an unsigned integer, and as unavailable otherwise. The product is taken in exact
  rational arithmetic; the truncated value is stored in 64 bits.
\<close>

definition scale_exact :: "u64 \<Rightarrow> u64 \<Rightarrow> u64 \<Rightarrow> rat" where
  "scale_exact raw_count enabled_time running_time =
     of_nat (unat raw_count) * (of_nat (unat enabled_time) / of_nat (unat running_time))"

definition event_scaled_value :: "event \<Rightarrow> nat \<Rightarrow> u64 option" where
  "event_scaled_value e cpu =
     (if cpu < length (efd e) then
        (case val (efd e ! cpu) of
           None \<Rightarrow> None
         | Some (raw_count, enabled_time, running_time) \<Rightarrow>
             if 0 < unat running_time
             then Some (word_of_int \<lfloor>scale_exact raw_count enabled_time running_time\<rfloor>)
             else None)
      else None)"

text \<open>
  Modelled from the spec: the C function returns a \<^verbatim>\<open>uint64_t\<close> in every case. The
  specification leaves the number returned for an unavailable value to the
  implementation and recommends zero.
\<close>

definition scaled_or_zero :: "event \<Rightarrow> nat \<Rightarrow> u64" where
  "scaled_or_zero e cpu = (case event_scaled_value e cpu of Some v \<Rightarrow> v | None \<Rightarrow> 0)"

text \<open>
  Modelled from the spec: \<^verbatim>\<open>read_all_events\<close> is a function of the session library
  and missing from the sources. According to the specification it reads, for every
  handle that is not marked "not applicable", the current raw count, enabled time and
  running time, and replaces the previous snapshot; a handle that fails to read has its
  value unavailable for that snapshot. The kernel's counters are a function from file
  descriptors to what a read returns now, \<open>None\<close> when the read fails.
\<close>

type_synonym counters = "int \<Rightarrow> (u64 \<times> u64 \<times> u64) option"

definition read_event :: "counters \<Rightarrow> efd \<Rightarrow> efd" where
  "read_event k h = (if fd h < 0 then h else h\<lparr>val := k (fd h)\<rparr>)"

definition read_all_events :: "counters \<Rightarrow> eventlist \<Rightarrow> eventlist" where
  "read_all_events k el =
     el\<lparr>eventlist := map (\<lambda>e. e\<lparr>efd := map (read_event k) (efd e)\<rparr>) (eventlist el)\<rparr>"

text \<open>
  Modelled from the spec: \<^verbatim>\<open>print_event_list_attr\<close> is a function of the session
  library and missing from the sources. The specification describes its output as the
  resolved low-level attributes used to open each handle, in text form, one line per
  handle. What a line holds is a parameter.
\<close>

definition print_event_list_attr :: "(event \<Rightarrow> nat \<Rightarrow> string) \<Rightarrow> eventlist \<Rightarrow> string list" where
  "print_event_list_attr attr_line l =
     concat (map (\<lambda>e. map (attr_line e) [0 ..< length (efd e)]) (eventlist l))"

subsection \<open>The environment of a run\<close>

text \<open>
  What \<^verbatim>\<open>getopt_long\<close> returns for the option string \<^verbatim>\<open>"ae:p:I:C:Av"\<close> and
  the table \<^verbatim>\<open>opts\<close>, one value for each option it finds, in command-line order,
  with \<^verbatim>\<open>optarg\<close> where the option takes an argument. \<open>Opt_unknown\<close> is the
  return value \<^verbatim>\<open>'?'\<close>.
\<close>

datatype opt =
    Opt_a
  | Opt_e string
  | Opt_p string
  | Opt_I string
  | Opt_C string
  | Opt_A
  | Opt_v
  | Opt_unknown

text \<open>
  The library and the operating system, as jestat.c sees them. A library function
  that changes the event list returns the new list. The n-th call of
  \<^verbatim>\<open>read_all_events\<close> and the n-th call of \<^verbatim>\<open>gettimeofday\<close> may each see a
  different world, so both take n. \<open>os_wakeups\<close> lists the returns of the blocking
  calls in the measuring loop (\<^verbatim>\<open>waitpid\<close> or \<^verbatim>\<open>pause\<close>): the value returned,
  and whether SIGALRM was delivered since the loop last looked. When the list is used up
  the call never returns.
\<close>

record env =
  lib_alloc_eventlist :: eventlist
  lib_parse_events :: "eventlist \<Rightarrow> string \<Rightarrow> int \<times> eventlist"
  lib_setup_events_cpumask :: "eventlist \<Rightarrow> bool \<Rightarrow> int \<Rightarrow> string option \<Rightarrow> int \<times> eventlist"
  lib_read_all_events :: "nat \<Rightarrow> eventlist \<Rightarrow> eventlist"
  lib_event_scaled_value :: "event \<Rightarrow> nat \<Rightarrow> u64"
  lib_print_event_list_attr :: "eventlist \<Rightarrow> string list"
  os_atoi :: "string \<Rightarrow> int"
  os_fork :: int
  os_execvp_fails :: bool
  os_child_pause_returns :: bool
  os_gettime :: "nat \<Rightarrow> rat"
  os_wakeups :: "(int \<times> bool) list"

text \<open>The local variables of \<^verbatim>\<open>main\<close> that the option loop sets.\<close>

record locals =
  events :: "string option"
  el :: eventlist
  measure_all :: bool
  interval :: int
  cpumask :: "string option"
  no_aggr :: bool
  verbose :: int

text \<open>
  The global variables \<^verbatim>\<open>gotalarm\<close> and \<^verbatim>\<open>starttime\<close>, and how many times the
  clock and the counters have been read so far.
\<close>

record globals =
  gotalarm :: bool
  starttime :: rat
  n_gettime :: nat
  n_read :: nat

subsection \<open>The measuring loop (jestat.c, lines 127 to 145)\<close>

text \<open>\<^verbatim>\<open>gettime\<close>: the time of day in microseconds.\<close>

definition gettime :: "env \<Rightarrow> globals \<Rightarrow> action list \<times> rat \<times> globals" where
  "gettime env g =
     (let t = os_gettime env (n_gettime g)
      in ([Gettime t], t, g\<lparr>n_gettime := Suc (n_gettime g)\<rparr>))"

definition do_read_all_events :: "env \<Rightarrow> eventlist \<Rightarrow> globals \<Rightarrow> action list \<times> eventlist \<times> globals" where
  "do_read_all_events env l g =
     ([Read_all_events (n_read g)], lib_read_all_events env (n_read g) l,
      g\<lparr>n_read := Suc (n_read g)\<rparr>)"

definition cont_measure ::
  "env \<Rightarrow> int \<Rightarrow> eventlist \<Rightarrow> bool \<Rightarrow> globals \<Rightarrow> action list \<times> bool \<times> eventlist \<times> globals" where
  "cont_measure env ret l noaggr g =
     (if ret < 0 \<and> gotalarm g then
        (let g1 = g\<lparr>gotalarm := False\<rparr>;
             (tr2, l2, g2) = do_read_all_events env l g1;
             (tr3, g3) = (if starttime g2 = 0
                          then (let (tr, t, g') = gettime env g2 in (tr, g'\<lparr>starttime := t\<rparr>))
                          else ([], g2));
             (tr4, t4, g4) = gettime env g3
         in (tr2 @ tr3 @ tr4
               @ print_data (lib_event_scaled_value env) l2 ((t4 - starttime g4) / 1000000) True noaggr,
             True, l2, g4))
      else ([], False, l, g))"

text \<open>
  The two \<^verbatim>\<open>for (;;)\<close> loops of \<^verbatim>\<open>main\<close>, which differ in the blocking call only
  (\<open>wait\<close> makes its action from the value returned). \<open>armed\<close> says whether the
  SIGALRM handler was installed, which \<^verbatim>\<open>main\<close> does for a nonzero interval only;
  the handler is what sets \<^verbatim>\<open>gotalarm\<close>. The result is \<open>None\<close> when the blocking
  call never returns.
\<close>

fun measure_loop ::
  "env \<Rightarrow> (int \<Rightarrow> action) \<Rightarrow> bool \<Rightarrow> (int \<times> bool) list \<Rightarrow> eventlist \<Rightarrow> bool \<Rightarrow> globals
     \<Rightarrow> action list \<times> (eventlist \<times> globals) option" where
  "measure_loop env wait armed [] l noaggr g = ([], None)"
| "measure_loop env wait armed ((ret, alarm) # ws) l noaggr g =
     (let g0 = g\<lparr>gotalarm := gotalarm g \<or> (armed \<and> alarm)\<rparr>;
          (tr, cont, l1, g1) = cont_measure env ret l noaggr g0
      in if cont
         then (let (tr', r) = measure_loop env wait armed ws l1 noaggr g1
               in (wait ret # tr @ tr', r))
         else (wait ret # tr, Some (l1, g1)))"

subsection \<open>\<^verbatim>\<open>main\<close> (jestat.c, lines 147 to 252)\<close>

definition default_events :: string where
  "default_events = ''instructions,cpu-cycles,cache-misses,cache-references''"

definition specify_message :: string where
  "specify_message = ''Specify command or -a'' @ [CHR 0x0A]"

definition cannot_execute_message :: string where
  "cannot_execute_message = ''Cannot execute program'' @ [CHR 0x0A]"

definition init_locals :: "env \<Rightarrow> locals" where
  "init_locals env =
     \<lparr>events = Some default_events, el = lib_alloc_eventlist env, measure_all = False,
      interval = 0, cpumask = None, no_aggr = False, verbose = 0\<rparr>"

definition init_globals :: globals where
  "init_globals = \<lparr>gotalarm = False, starttime = 0, n_gettime = 0, n_read = 0\<rparr>"

text \<open>
  The \<^verbatim>\<open>while\<close> loop over the options. \<open>Inl status\<close> is \<^verbatim>\<open>exit(status)\<close>. The
  options \<^verbatim>\<open>p\<close> and \<^verbatim>\<open>?\<close> have no case of their own and reach \<^verbatim>\<open>default:\<close>,
  which calls \<^verbatim>\<open>usage\<close>.
\<close>

fun opt_loop :: "env \<Rightarrow> locals \<Rightarrow> opt list \<Rightarrow> action list \<times> (int + locals)" where
  "opt_loop env s [] = ([], Inr s)"
| "opt_loop env s (Opt_e optarg # os) =
     (let (r, l) = lib_parse_events env (el s) optarg
      in if r < 0 then ([Parse_events (el s) optarg r], Inl 1)
         else (let (tr, res) = opt_loop env (s\<lparr>el := l, events := None\<rparr>) os
               in (Parse_events (el s) optarg r # tr, res)))"
| "opt_loop env s (Opt_a # os) = opt_loop env (s\<lparr>measure_all := True\<rparr>) os"
| "opt_loop env s (Opt_I optarg # os) = opt_loop env (s\<lparr>interval := os_atoi env optarg\<rparr>) os"
| "opt_loop env s (Opt_C optarg # os) = opt_loop env (s\<lparr>cpumask := Some optarg\<rparr>) os"
| "opt_loop env s (Opt_A # os) = opt_loop env (s\<lparr>no_aggr := True\<rparr>) os"
| "opt_loop env s (Opt_v # os) = opt_loop env (s\<lparr>verbose := verbose s + 1\<rparr>) os"
| "opt_loop env s (Opt_p optarg # os) = ([Usage], Inl 1)"
| "opt_loop env s (Opt_unknown # os) = ([Usage], Inl 1)"

text \<open>\<^verbatim>\<open>if (events && parse_events(el, events) < 0) exit(1);\<close>\<close>

definition parse_default :: "env \<Rightarrow> locals \<Rightarrow> action list \<times> locals option" where
  "parse_default env s =
     (case events s of
        None \<Rightarrow> ([], Some s)
      | Some ev \<Rightarrow>
          (let (r, l) = lib_parse_events env (el s) ev
           in ([Parse_events (el s) ev r], if r < 0 then None else Some (s\<lparr>el := l\<rparr>))))"

text \<open>The child after \<^verbatim>\<open>fork\<close> (lines 202 to 213).\<close>

definition child :: "env \<Rightarrow> string list \<Rightarrow> action list \<times> outcome" where
  "child env cmd =
     (if cmd = [] then
        ([Child_read_pipe, Child_pause], if os_child_pause_returns env then Exit 0 else Blocked)
      else if os_execvp_fails env then
        ([Child_read_pipe, Execvp cmd, Stderr cannot_execute_message], Exit 1)
      else ([Child_read_pipe, Execvp cmd], Replaced))"

text \<open>C's division and remainder of \<^verbatim>\<open>int\<close>, which truncate towards zero.\<close>

definition c_div :: "int \<Rightarrow> int \<Rightarrow> int" where
  "c_div a b = sgn a * sgn b * (\<bar>a\<bar> div \<bar>b\<bar>)"

definition c_mod :: "int \<Rightarrow> int \<Rightarrow> int" where
  "c_mod a b = a - b * c_div a b"

text \<open>Lines 219 to 232: the interval timer.\<close>

definition start_timer :: "int \<Rightarrow> action list" where
  "start_timer ival =
     (if ival \<noteq> 0
      then [Sigaction_sigalrm, Setitimer (c_div ival 1000) (c_mod ival 1000 * 1000)]
      else [])"

text \<open>Lines 233 to 251: wait for the end of the measurement, then read and print.\<close>

definition measure :: "env \<Rightarrow> int \<Rightarrow> locals \<Rightarrow> action list \<times> outcome" where
  "measure env pid s =
     (let (tr1, r) =
            (if 0 \<le> pid
             then (let (tr, r) = measure_loop env (Waitpid pid) (interval s \<noteq> 0) (os_wakeups env)
                                   (el s) (no_aggr s) init_globals
                   in (Write_pipe # tr, r))
             else measure_loop env Pause (interval s \<noteq> 0) (os_wakeups env)
                    (el s) (no_aggr s) init_globals)
      in case r of
           None \<Rightarrow> (tr1, Blocked)
         | Some (l, g) \<Rightarrow>
             (let (tr2, l2, g2) = do_read_all_events env l g;
                  (tr3, t3, g3) = gettime env g2
              in (tr1 @ tr2 @ tr3
                    @ print_data (lib_event_scaled_value env) l2 ((t3 - starttime g3) / 1000000)
                        (interval s \<noteq> 0 \<and> starttime g3 \<noteq> 0) (no_aggr s),
                  Exit 0)))"

text \<open>Lines 214 to 218, in the parent: open the counters, then the dump that \<^verbatim>\<open>-v\<close> asks for.\<close>

definition parent :: "env \<Rightarrow> int \<Rightarrow> locals \<Rightarrow> action list \<times> outcome" where
  "parent env pid s =
     (let (r, l) = lib_setup_events_cpumask env (el s) (measure_all s) pid (cpumask s);
          setup = Setup_events_cpumask (el s) (measure_all s) pid (cpumask s) r
      in if r < 0 then ([setup], Exit 1)
         else (let dump = (if verbose s \<noteq> 0
                           then [Print_event_list_attr (lib_print_event_list_attr env l)]
                           else []);
                   (tr, out) = measure env pid (s\<lparr>el := l\<rparr>)
               in (setup # dump @ Signal_sigint # start_timer (interval s) @ tr, out)))"

text \<open>Lines 197 to 213: the pipe, the fork and the two processes that come out of it.\<close>

definition run_forked :: "env \<Rightarrow> string list \<Rightarrow> locals \<Rightarrow> action list \<times> outcome" where
  "run_forked env cmd s =
     (let pid = os_fork env;
          (tr, out) = (if pid < 0 then ([Perror ''fork''], Exit 1)
                       else if pid = 0 then child env cmd
                       else parent env pid s)
      in (Pipe # Signal_ign_sigchld # Fork pid # tr, out))"

text \<open>
  \<^verbatim>\<open>main\<close>. \<open>cmd\<close> is \<^verbatim>\<open>av + optind\<close>, the words left after the options;
  \<^verbatim>\<open>av[optind] == NULL\<close> when it is empty.
\<close>

definition main :: "env \<Rightarrow> opt list \<Rightarrow> string list \<Rightarrow> action list \<times> outcome" where
  "main env opts cmd =
     (case opt_loop env (init_locals env) opts of
        (tr1, Inl status) \<Rightarrow> (tr1, Exit status)
      | (tr1, Inr s) \<Rightarrow>
          if cmd = [] \<and> \<not> measure_all s then (tr1 @ [Stderr specify_message], Exit 1)
          else (case parse_default env s of
                  (tr2, None) \<Rightarrow> (tr1 @ tr2, Exit 1)
                | (tr2, Some s2) \<Rightarrow>
                    (let (tr3, out) = run_forked env cmd s2 in (tr1 @ tr2 @ tr3, out))))"

subsection \<open>Reading a trace\<close>

text \<open>The lines of the aggregate mode in a trace: the name and the value of each.\<close>

fun printed_aggr :: "action \<Rightarrow> (string \<times> u64) list" where
  "printed_aggr (Printf_aggr n v) = [(n, v)]"
| "printed_aggr _ = []"

definition aggr_values :: "action list \<Rightarrow> (string \<times> u64) list" where
  "aggr_values tr = concat (map printed_aggr tr)"

text \<open>The lines of the per-CPU mode in a trace: CPU, name and value.\<close>

fun printed_cpu :: "action \<Rightarrow> (nat \<times> string \<times> u64) list" where
  "printed_cpu (Printf_cpu i n v) = [(i, n, v)]"
| "printed_cpu _ = []"

definition cpu_values :: "action list \<Rightarrow> (nat \<times> string \<times> u64) list" where
  "cpu_values tr = concat (map printed_cpu tr)"

text \<open>A target of an event is valid when its handle does not carry the sentinel.\<close>

definition applicable :: "event \<Rightarrow> nat \<Rightarrow> bool" where
  "applicable e i = (0 \<le> fd (efd e ! i))"

text \<open>The sum over all the targets of an event, in 64 bits.\<close>

definition all_sum :: "(event \<Rightarrow> nat \<Rightarrow> u64) \<Rightarrow> eventlist \<Rightarrow> event \<Rightarrow> u64" where
  "all_sum esv l e = sum_list (map (esv e) [0 ..< nat (num_cpus l)])"

text \<open>
  The aggregate value in the words of the specification: the sum of the scaled values
  over the valid targets only.
\<close>

definition spec_aggr_value :: "(event \<Rightarrow> nat \<Rightarrow> u64) \<Rightarrow> eventlist \<Rightarrow> event \<Rightarrow> u64" where
  "spec_aggr_value esv l e =
     sum_list (map (esv e) (filter (applicable e) [0 ..< nat (num_cpus l)]))"

text \<open>
  The event lists that jestat meets: a handle that carries the sentinel holds no snapshot.
  Attachment sets the sentinel once and for all, and the read pass passes over such a
  handle, so nothing ever stores a snapshot in it.
\<close>

definition sentinel_clean :: "eventlist \<Rightarrow> bool" where
  "sentinel_clean l \<longleftrightarrow> (\<forall>e\<in>set (eventlist l). \<forall>h\<in>set (efd e). fd h < 0 \<longrightarrow> val h = None)"

text \<open>The scaled values a consumer finds in an event list, event by event, CPU by CPU.\<close>

definition scaled_values :: "eventlist \<Rightarrow> u64 option list list" where
  "scaled_values l = map (\<lambda>e. map (event_scaled_value e) [0 ..< nat (num_cpus l)]) (eventlist l)"

text \<open>
  Predicates on single actions: a call of \<^verbatim>\<open>parse_events\<close> that succeeded or failed,
  a call of \<^verbatim>\<open>setup_events_cpumask\<close> and its two results, a call of
  \<^verbatim>\<open>read_all_events\<close>, a line of data on stdout, the fork, the dump of \<^verbatim>\<open>-v\<close>.
\<close>

fun ok_parse :: "action \<Rightarrow> bool" where
  "ok_parse (Parse_events l s r) = (0 \<le> r)"
| "ok_parse _ = False"

fun fail_parse :: "action \<Rightarrow> bool" where
  "fail_parse (Parse_events l s r) = (r < 0)"
| "fail_parse _ = False"

fun is_setup :: "action \<Rightarrow> bool" where
  "is_setup (Setup_events_cpumask l ma pid cm r) = True"
| "is_setup _ = False"

fun ok_setup :: "action \<Rightarrow> bool" where
  "ok_setup (Setup_events_cpumask l ma pid cm r) = (0 \<le> r)"
| "ok_setup _ = False"

fun fail_setup :: "action \<Rightarrow> bool" where
  "fail_setup (Setup_events_cpumask l ma pid cm r) = (r < 0)"
| "fail_setup _ = False"

fun is_read :: "action \<Rightarrow> bool" where
  "is_read (Read_all_events n) = True"
| "is_read _ = False"

fun is_print :: "action \<Rightarrow> bool" where
  "is_print (Printf_ts ts) = True"
| "is_print (Printf_aggr n v) = True"
| "is_print (Printf_cpu i n v) = True"
| "is_print _ = False"

fun is_fork :: "action \<Rightarrow> bool" where
  "is_fork (Fork pid) = True"
| "is_fork _ = False"

fun is_dump :: "action \<Rightarrow> bool" where
  "is_dump (Print_event_list_attr ls) = True"
| "is_dump _ = False"

text \<open>
  The actions of the four stretches of a run: the measuring loop with the final read and
  print, the child, what follows a successful \<^verbatim>\<open>setup_events_cpumask\<close> in the parent,
  and what precedes the call.
\<close>

fun in_measure :: "action \<Rightarrow> bool" where
  "in_measure Write_pipe = True"
| "in_measure (Waitpid pid r) = True"
| "in_measure (Pause r) = True"
| "in_measure (Read_all_events n) = True"
| "in_measure (Gettime t) = True"
| "in_measure (Event_scaled_value e i) = True"
| "in_measure (Printf_ts ts) = True"
| "in_measure (Printf_aggr n v) = True"
| "in_measure (Printf_cpu i n v) = True"
| "in_measure _ = False"

fun in_child :: "action \<Rightarrow> bool" where
  "in_child Child_read_pipe = True"
| "in_child Child_pause = True"
| "in_child (Execvp cmd) = True"
| "in_child (Stderr m) = True"
| "in_child _ = False"

fun after_setup :: "action \<Rightarrow> bool" where
  "after_setup (Print_event_list_attr ls) = True"
| "after_setup Signal_sigint = True"
| "after_setup Sigaction_sigalrm = True"
| "after_setup (Setitimer s us) = True"
| "after_setup a = in_measure a"

fun before_setup :: "action \<Rightarrow> bool" where
  "before_setup (Parse_events l s r) = (0 \<le> r)"
| "before_setup Pipe = True"
| "before_setup Signal_ign_sigchld = True"
| "before_setup (Fork pid) = True"
| "before_setup _ = False"


text \<open>The calls of \<^verbatim>\<open>parse_events\<close> in a trace: the list handed in, the string, the result.\<close>

fun parsed :: "action \<Rightarrow> (eventlist \<times> string \<times> int) list" where
  "parsed (Parse_events l s r) = [(l, s, r)]"
| "parsed _ = []"

definition parse_calls :: "action list \<Rightarrow> (eventlist \<times> string \<times> int) list" where
  "parse_calls tr = concat (map parsed tr)"

text \<open>The arguments of the \<^verbatim>\<open>-e\<close> options of a command line, in order.\<close>

fun e_arg :: "opt \<Rightarrow> string list" where
  "e_arg (Opt_e optarg) = [optarg]"
| "e_arg _ = []"

definition e_args :: "opt list \<Rightarrow> string list" where
  "e_args os = concat (map e_arg os)"

text \<open>The options that end in \<^verbatim>\<open>usage\<close>.\<close>

fun rejected :: "opt \<Rightarrow> bool" where
  "rejected (Opt_p optarg) = True"
| "rejected Opt_unknown = True"
| "rejected _ = False"

text \<open>
  Parsing a sequence of specifications into one event list, in order: each call is
  handed the list as the call before left it, and the first failure ends the sequence.
\<close>

fun parse_seq :: "env \<Rightarrow> eventlist \<Rightarrow> string list \<Rightarrow> (eventlist \<times> string \<times> int) list" where
  "parse_seq env l [] = []"
| "parse_seq env l (a # as) =
     (let (r, l') = lib_parse_events env l a
      in (l, a, r) # (if r < 0 then [] else parse_seq env l' as))"

text \<open>Two states of the local variables that differ in \<^verbatim>\<open>verbose\<close> at most.\<close>

definition same_but_verbose :: "locals \<Rightarrow> locals \<Rightarrow> bool" where
  "same_but_verbose s s' \<longleftrightarrow>
     events s = events s' \<and> el s = el s' \<and> measure_all s = measure_all s'
     \<and> interval s = interval s' \<and> cpumask s = cpumask s' \<and> no_aggr s = no_aggr s'"

subsection \<open>Sample data\<close>

text \<open>
  One event on four CPUs with the CPU mask \<^verbatim>\<open>0,2-3\<close>, after a read: CPU 1 carries
  the sentinel and has no snapshot, the other three have been read.
\<close>

definition masked_event :: event where
  "masked_event =
     \<lparr>event = ''cpu-cycles'', extra_name = None,
      efd = [\<lparr>fd = 3, val = Some (100, 10, 10)\<rparr>, \<lparr>fd = - 1, val = None\<rparr>,
             \<lparr>fd = 4, val = Some (20, 10, 10)\<rparr>, \<lparr>fd = 5, val = Some (3, 10, 10)\<rparr>]\<rparr>"

definition masked_el :: eventlist where
  "masked_el = \<lparr>eventlist = [masked_event], num_cpus = 4\<rparr>"

text \<open>One event on two CPUs, neither of which is measured.\<close>

definition unmeasured_event :: event where
  "unmeasured_event =
     \<lparr>event = ''cache-misses'', extra_name = None,
      efd = [\<lparr>fd = - 1, val = None\<rparr>, \<lparr>fd = - 1, val = None\<rparr>]\<rparr>"

definition unmeasured_el :: eventlist where
  "unmeasured_el = \<lparr>eventlist = [unmeasured_event], num_cpus = 2\<rparr>"

text \<open>A counter that ran half of the time it was enabled, and one that ran all of it.\<close>

definition half_event :: event where
  "half_event =
     \<lparr>event = ''instructions'', extra_name = Some ''inst'',
      efd = [\<lparr>fd = 3, val = Some (100, 2000, 1000)\<rparr>, \<lparr>fd = 4, val = Some (100, 777, 777)\<rparr>]\<rparr>"

text \<open>
  A small environment to run \<^verbatim>\<open>main\<close> in: two CPUs, a parser that knows every name
  but \<^verbatim>\<open>bogus_event_xyz\<close>, an attachment that fails for the CPU mask \<^verbatim>\<open>99\<close> and
  leaves CPU 1 out for any other mask, a counter that advances between the reads.
\<close>

definition demo_parse :: "eventlist \<Rightarrow> string \<Rightarrow> int \<times> eventlist" where
  "demo_parse l s =
     (if s = ''bogus_event_xyz'' then (- 1, l)
      else (0, l\<lparr>eventlist := eventlist l
                  @ [\<lparr>event = s, extra_name = None,
                      efd = replicate (nat (num_cpus l)) \<lparr>fd = - 1, val = None\<rparr>\<rparr>]\<rparr>))"

definition demo_setup :: "eventlist \<Rightarrow> bool \<Rightarrow> int \<Rightarrow> string option \<Rightarrow> int \<times> eventlist" where
  "demo_setup l ma pid cm =
     (if cm = Some ''99'' then (- 1, l)
      else (0, l\<lparr>eventlist :=
                  map (\<lambda>e. e\<lparr>efd := [\<lparr>fd = 3, val = None\<rparr>,
                                      \<lparr>fd = (if cm = None then 4 else - 1), val = None\<rparr>]\<rparr>)
                    (eventlist l)\<rparr>))"

definition demo_counters :: "nat \<Rightarrow> counters" where
  "demo_counters n d =
     (if d = 3 then Some (100 * (1 + word_of_nat n), 10, 5)
      else if d = 4 then Some (7, 8, 8) else None)"

definition demo_env :: env where
  "demo_env =
     \<lparr>lib_alloc_eventlist = \<lparr>eventlist = [], num_cpus = 2\<rparr>,
      lib_parse_events = demo_parse,
      lib_setup_events_cpumask = demo_setup,
      lib_read_all_events = (\<lambda>n. read_all_events (demo_counters n)),
      lib_event_scaled_value = scaled_or_zero,
      lib_print_event_list_attr = (\<lambda>l. map event (eventlist l)),
      os_atoi = (\<lambda>s. if s = ''1000'' then 1000 else 0),
      os_fork = 1234,
      os_execvp_fails = False,
      os_child_pause_returns = False,
      os_gettime = (\<lambda>n. 5000000 + 1000000 * of_nat n),
      os_wakeups = [(- 1, True), (- 1, False)]\<rparr>"

section \<open>Properties\<close>

subsection \<open>Scaling\<close>

lemma floor_scale:
  "0 < unat r \<Longrightarrow> \<lfloor>scale_exact a b r\<rfloor> = int ((unat a * unat b) div unat r)"
  unfolding scale_exact_def
  by (metis floor_divide_of_nat_eq of_nat_mult times_divide_eq_right)

lemma event_scaled_value_Some:
  assumes "cpu < length (efd e)" and "val (efd e ! cpu) = Some (a, b, r)" and "0 < unat r"
  shows "event_scaled_value e cpu = Some (word_of_nat ((unat a * unat b) div unat r))"
  using assms by (simp add: event_scaled_value_def floor_scale)

lemma half_div: "(0::nat) < r \<Longrightarrow> 100 * (2 * r) div r = 200"
  by simp

lemma half_odd_div:
  assumes "r = n div 2" and "(100::nat) < r"
  shows "100 * n div r = 200"
proof -
  have n: "n = 2 * r \<or> n = 2 * r + 1" using assms(1) by presburger
  have r: "0 < r" using assms(2) by simp
  show ?thesis
  proof (rule disjE [OF n])
    assume "n = 2 * r" then show ?thesis using r by simp
  next
    assume n1: "n = 2 * r + 1"
    have "100 * n = 200 * r + 100" using n1 by simp
    moreover have "(200 * r + 100) div r = 200 + 100 div r"
      using r by (metis add.commute div_mult_self2 less_numeral_extra(3) mult.commute)
    ultimately show ?thesis using assms(2) by simp
  qed
qed

text \<open>
  C3: for a handle whose running time is positive, \<^verbatim>\<open>event_scaled_value\<close> is
  \<^verbatim>\<open>raw_count * (enabled_time / running_time)\<close> truncated to an unsigned integer, which
  is the quotient of \<^verbatim>\<open>raw_count * enabled_time\<close> by \<^verbatim>\<open>running_time\<close> when that fits
  in 64 bits. When the enabled time equals the running time the result is the raw count
  exactly. When the raw count is 100 and the running time is half of the enabled time
  the result is 200; with the half taken by integer division of an odd enabled time,
  the result is still 200 once the running time is above 100.
\<close>

theorem event_scaled_value_spec:
  assumes "cpu < length (efd e)" and "val (efd e ! cpu) = Some (raw, en, run)" and "0 < unat run"
  shows "event_scaled_value e cpu
           = Some (word_of_int \<lfloor>of_nat (unat raw) * (of_nat (unat en) / of_nat (unat run)) :: rat\<rfloor>)
       \<and> (unat raw * unat en div unat run < 2 ^ 64 \<longrightarrow>
            (\<exists>v. event_scaled_value e cpu = Some v \<and> unat v = unat raw * unat en div unat run))
       \<and> (en = run \<longrightarrow> event_scaled_value e cpu = Some raw)
       \<and> (raw = 100 \<and> unat en = 2 * unat run \<longrightarrow> event_scaled_value e cpu = Some 200)
       \<and> (raw = 100 \<and> unat run = unat en div 2 \<and> 100 < unat run \<longrightarrow>
            event_scaled_value e cpu = Some 200)"
proof (intro conjI impI)
  show "event_scaled_value e cpu
           = Some (word_of_int \<lfloor>of_nat (unat raw) * (of_nat (unat en) / of_nat (unat run)) :: rat\<rfloor>)"
    using assms by (simp add: event_scaled_value_def scale_exact_def)
next
  assume "unat raw * unat en div unat run < 2 ^ 64"
  then have "unat (word_of_nat (unat raw * unat en div unat run) :: u64)
               = unat raw * unat en div unat run"
    by (simp add: unat_of_nat)
  then show "\<exists>v. event_scaled_value e cpu = Some v \<and> unat v = unat raw * unat en div unat run"
    using event_scaled_value_Some [OF assms] by simp
next
  assume "en = run"
  then show "event_scaled_value e cpu = Some raw"
    using event_scaled_value_Some [OF assms] assms(3) by simp
next
  assume "raw = 100 \<and> unat en = 2 * unat run"
  then show "event_scaled_value e cpu = Some 200"
    using event_scaled_value_Some [OF assms] half_div [OF assms(3)] by simp
next
  assume "raw = 100 \<and> unat run = unat en div 2 \<and> 100 < unat run"
  then show "event_scaled_value e cpu = Some 200"
    using event_scaled_value_Some [OF assms] half_odd_div [of "unat run" "unat en"] by simp
qed

theorem event_scaled_value_spec_witness:
  "event_scaled_value half_event 0 = Some 200 \<and> event_scaled_value half_event 1 = Some 100"
  using event_scaled_value_spec [of 0 half_event 100 2000 1000]
        event_scaled_value_spec [of 1 half_event 100 777 777]
  by (simp add: half_event_def)

subsection \<open>Printing in aggregate mode\<close>

lemma aggr_loop_eq:
  "aggr_loop esv e cpus v = (map (Event_scaled_value e) cpus, v + sum_list (map (esv e) cpus))"
  by (induction cpus arbitrary: v) (simp_all add: add.assoc)

lemma print_event_aggr_eq:
  "print_event_aggr esv n ts p e =
     map (Event_scaled_value e) [0 ..< nat n] @ print_ts_actions ts p
     @ [Printf_aggr (event_label e) (sum_list (map (esv e) [0 ..< nat n]))]"
  by (simp add: print_event_aggr_def aggr_loop_eq)

lemma aggr_values_append [simp]: "aggr_values (xs @ ys) = aggr_values xs @ aggr_values ys"
  by (simp add: aggr_values_def)

lemma aggr_values_Cons: "aggr_values (a # xs) = printed_aggr a @ aggr_values xs"
  by (simp add: aggr_values_def)

lemma aggr_values_Nil [simp]: "aggr_values [] = []"
  by (simp add: aggr_values_def)

lemma aggr_values_calls [simp]: "aggr_values (map (Event_scaled_value e) cpus) = []"
  by (induction cpus) (simp_all add: aggr_values_Cons)

lemma aggr_values_ts [simp]: "aggr_values (print_ts_actions ts p) = []"
  by (simp add: print_ts_actions_def aggr_values_Cons)

lemma aggr_values_events:
  "aggr_values (concat (map (print_event_aggr esv n ts p) es))
     = map (\<lambda>e. (event_label e, sum_list (map (esv e) [0 ..< nat n]))) es"
  by (induction es) (simp_all add: print_event_aggr_eq aggr_values_Cons)

lemma sum_list_filter_zero:
  fixes f :: "nat \<Rightarrow> u64"
  assumes "\<And>i. i \<in> set xs \<Longrightarrow> \<not> P i \<Longrightarrow> f i = 0"
  shows "sum_list (map f (filter P xs)) = sum_list (map f xs)"
  using assms by (induction xs) auto

lemma spec_aggr_value_all_sum:
  assumes "\<forall>i\<in>set [0 ..< nat (num_cpus l)]. fd (efd e ! i) < 0 \<longrightarrow> esv e i = 0"
  shows "spec_aggr_value esv l e = all_sum esv l e"
  unfolding spec_aggr_value_def all_sum_def
  by (rule sum_list_filter_zero) (use assms in \<open>auto simp: applicable_def\<close>)

lemma spec_aggr_value_none:
  assumes "\<forall>i\<in>set [0 ..< nat (num_cpus l)]. fd (efd e ! i) < 0"
  shows "spec_aggr_value esv l e = 0"
proof -
  have "filter (applicable e) [0 ..< nat (num_cpus l)] = []"
    using assms by (auto simp: filter_empty_conv applicable_def)
  then show ?thesis by (simp add: spec_aggr_value_def)
qed

lemma print_data_aggr_all_sum:
  "aggr_values (print_data_aggr esv l ts print_ts)
     = map (\<lambda>e. (event_label e, all_sum esv l e)) (eventlist l)"
  by (simp add: print_data_aggr_def aggr_values_events all_sum_def)

lemma print_data_aggr_valid_sum:
  assumes "\<forall>e\<in>set (eventlist l). \<forall>i\<in>set [0 ..< nat (num_cpus l)].
             fd (efd e ! i) < 0 \<longrightarrow> esv e i = 0"
  shows "aggr_values (print_data_aggr esv l ts print_ts)
           = map (\<lambda>e. (event_label e, spec_aggr_value esv l e)) (eventlist l)"
  using assms by (simp add: print_data_aggr_all_sum spec_aggr_value_all_sum)

lemma scaled_or_zero_sentinel:
  assumes "sentinel_clean l" and "e \<in> set (eventlist l)" and "fd (efd e ! i) < 0"
  shows "scaled_or_zero e i = 0"
proof (cases "i < length (efd e)")
  case True
  then have "efd e ! i \<in> set (efd e)" by simp
  then have "val (efd e ! i) = None"
    using assms by (auto simp: sentinel_clean_def)
  then show ?thesis
    using True by (simp add: scaled_or_zero_def event_scaled_value_def)
next
  case False
  then show ?thesis
    by (simp add: scaled_or_zero_def event_scaled_value_def)
qed

lemma sentinel_clean_read_all_events:
  "sentinel_clean l \<Longrightarrow> sentinel_clean (read_all_events k l)"
  by (auto simp: sentinel_clean_def read_all_events_def read_event_def split: if_splits)

lemma print_data_aggr_clean:
  assumes "sentinel_clean l"
  shows "aggr_values (print_data_aggr scaled_or_zero l ts print_ts)
           = map (\<lambda>e. (event_label e, spec_aggr_value scaled_or_zero l e)) (eventlist l)"
  by (rule print_data_aggr_valid_sum) (use assms in \<open>auto intro: scaled_or_zero_sentinel\<close>)

text \<open>
  C1: in aggregate mode one line is printed for every event of the list, in order, and
  the value on it is the sum of the scaled values over the valid targets only; an event
  with no valid target at all is reported with the value 0, and nothing in the printing
  is an error. This holds of every event list in which the handles that carry the
  sentinel hold no snapshot, and a read pass takes such a list to such a list, so it
  holds after any number of reads. (The code adds \<^verbatim>\<open>event_scaled_value\<close> over all the
  targets below \<^verbatim>\<open>num_cpus\<close>; a handle with the sentinel adds 0.)
\<close>

theorem print_data_aggr_value:
  assumes "sentinel_clean l"
  shows "aggr_values (print_data_aggr scaled_or_zero l ts print_ts)
           = map (\<lambda>e. (event_label e, spec_aggr_value scaled_or_zero l e)) (eventlist l)
       \<and> (\<forall>e\<in>set (eventlist l).
             (\<forall>i\<in>set [0 ..< nat (num_cpus l)]. fd (efd e ! i) < 0) \<longrightarrow>
             (event_label e, 0) \<in> set (aggr_values (print_data_aggr scaled_or_zero l ts print_ts)))
       \<and> sentinel_clean (read_all_events k l)
       \<and> aggr_values (print_data_aggr scaled_or_zero (read_all_events k l) ts print_ts)
           = map (\<lambda>e. (event_label e, spec_aggr_value scaled_or_zero (read_all_events k l) e))
               (eventlist (read_all_events k l))"
proof (intro conjI ballI impI)
  show valid: "aggr_values (print_data_aggr scaled_or_zero l ts print_ts)
           = map (\<lambda>e. (event_label e, spec_aggr_value scaled_or_zero l e)) (eventlist l)"
    using assms by (rule print_data_aggr_clean)
  show clean: "sentinel_clean (read_all_events k l)"
    using assms by (rule sentinel_clean_read_all_events)
  show "aggr_values (print_data_aggr scaled_or_zero (read_all_events k l) ts print_ts)
           = map (\<lambda>e. (event_label e, spec_aggr_value scaled_or_zero (read_all_events k l) e))
               (eventlist (read_all_events k l))"
    using clean by (rule print_data_aggr_clean)
  fix e
  assume e: "e \<in> set (eventlist l)"
    and none: "\<forall>i\<in>set [0 ..< nat (num_cpus l)]. fd (efd e ! i) < 0"
  have "spec_aggr_value scaled_or_zero l e = 0"
    using none by (rule spec_aggr_value_none)
  then have "(event_label e, 0)
      \<in> set (map (\<lambda>e. (event_label e, spec_aggr_value scaled_or_zero l e)) (eventlist l))"
    using e by force
  then show "(event_label e, 0) \<in> set (aggr_values (print_data_aggr scaled_or_zero l ts print_ts))"
    using valid by simp
qed

theorem print_data_aggr_value_witness:
  "sentinel_clean masked_el
   \<and> aggr_values (print_data_aggr scaled_or_zero masked_el 0 False) = [(''cpu-cycles'', 123)]
   \<and> spec_aggr_value scaled_or_zero masked_el masked_event = 123
   \<and> sentinel_clean unmeasured_el
   \<and> (''cache-misses'', 0) \<in> set (aggr_values (print_data_aggr scaled_or_zero unmeasured_el 0 False))"
proof -
  have m: "sentinel_clean masked_el"
    by code_simp
  have u: "sentinel_clean unmeasured_el"
    by code_simp
  have sum: "spec_aggr_value scaled_or_zero masked_el masked_event = 123"
    by code_simp
  have "aggr_values (print_data_aggr scaled_or_zero masked_el 0 False)
          = map (\<lambda>e. (event_label e, spec_aggr_value scaled_or_zero masked_el e))
              (eventlist masked_el)"
    using print_data_aggr_value [OF m, of 0 False] by blast
  also have "\<dots> = [(''cpu-cycles'', 123)]"
    by code_simp
  finally have printed:
    "aggr_values (print_data_aggr scaled_or_zero masked_el 0 False) = [(''cpu-cycles'', 123)]" .
  have mem: "unmeasured_event \<in> set (eventlist unmeasured_el)"
    by (simp add: unmeasured_el_def)
  have none: "\<forall>i\<in>set [0 ..< nat (num_cpus unmeasured_el)]. fd (efd unmeasured_event ! i) < 0"
    by code_simp
  have "(event_label unmeasured_event, 0)
          \<in> set (aggr_values (print_data_aggr scaled_or_zero unmeasured_el 0 False))"
    using print_data_aggr_value [OF u, of 0 False] mem none by blast
  moreover have "event_label unmeasured_event = ''cache-misses''"
    by (simp add: event_label_def unmeasured_event_def)
  ultimately show ?thesis
    using m u sum printed by simp
qed

subsection \<open>Handles that carry the sentinel\<close>

lemma no_aggr_loop_eq:
  "no_aggr_loop esv ts p e cpus = concat (map (cpu_line esv ts p e) (filter (applicable e) cpus))"
  by (induction cpus) (simp_all add: applicable_def)

lemma cpu_line_scaled:
  "Event_scaled_value e' i' \<in> set (cpu_line esv ts p e i) \<longleftrightarrow> e' = e \<and> i' = i"
  by (auto simp: cpu_line_def print_ts_actions_def)

lemma cpu_line_printed: "Printf_cpu i' n v \<in> set (cpu_line esv ts p e i) \<Longrightarrow> i' = i"
  by (auto simp: cpu_line_def print_ts_actions_def split: if_splits)

lemma no_aggr_skips_scaled:
  assumes "fd (efd e ! i) < 0"
  shows "Event_scaled_value e i \<notin> set (print_data_no_aggr esv l ts p)"
  using assms
  by (auto simp: print_data_no_aggr_def no_aggr_loop_eq cpu_line_scaled applicable_def)

lemma no_aggr_skips_printed:
  assumes "fd (efd e ! i) < 0"
  shows "Printf_cpu i n v \<notin> set (no_aggr_loop esv ts p e cpus)"
  using assms by (auto simp: no_aggr_loop_eq applicable_def dest!: cpu_line_printed)

lemma aggr_scales_all:
  assumes "e \<in> set (eventlist l)" and "i < nat (num_cpus l)"
  shows "Event_scaled_value e i \<in> set (print_data_aggr esv l ts p)"
proof -
  have "Event_scaled_value e i \<in> set (print_event_aggr esv (num_cpus l) ts p e)"
    using assms(2) by (simp add: print_event_aggr_eq)
  then show ?thesis
    using assms(1) by (auto simp: print_data_aggr_def)
qed

lemma cpu_values_append [simp]: "cpu_values (xs @ ys) = cpu_values xs @ cpu_values ys"
  by (simp add: cpu_values_def)

lemma cpu_values_Cons: "cpu_values (a # xs) = printed_cpu a @ cpu_values xs"
  by (simp add: cpu_values_def)

lemma cpu_values_Nil [simp]: "cpu_values [] = []"
  by (simp add: cpu_values_def)

lemma cpu_values_calls [simp]: "cpu_values (map (Event_scaled_value e) cpus) = []"
  by (induction cpus) (simp_all add: cpu_values_Cons)

lemma cpu_values_ts [simp]: "cpu_values (print_ts_actions ts p) = []"
  by (simp add: print_ts_actions_def cpu_values_Cons)

lemma cpu_values_aggr: "cpu_values (concat (map (print_event_aggr esv n ts p) es)) = []"
  by (induction es) (simp_all add: print_event_aggr_eq cpu_values_Cons)

lemma print_data_no_aggr_eq:
  "print_data_no_aggr esv l ts print_ts
     = concat (map (\<lambda>e. concat (map (cpu_line esv ts print_ts e)
                                  (filter (applicable e) [0 ..< nat (num_cpus l)]))) (eventlist l))"
  by (simp add: print_data_no_aggr_def no_aggr_loop_eq)

lemma print_data_aggr_no_cpu_lines: "cpu_values (print_data_aggr esv l ts print_ts) = []"
  by (simp add: print_data_aggr_def cpu_values_aggr)

text \<open>
  C2: the claim is that a handle which carries the sentinel is never scaled and never
  printed, by any printing operation. \<^verbatim>\<open>print_data_no_aggr\<close> does that: it tests
  \<^verbatim>\<open>e->efd[i].fd < 0\<close> and passes over the handle before \<^verbatim>\<open>event_scaled_value\<close> is
  called (\<open>no_aggr_skips_scaled\<close>, \<open>no_aggr_skips_printed\<close>). \<^verbatim>\<open>print_data_aggr\<close>
  has no such test and calls \<^verbatim>\<open>event_scaled_value\<close> for every target below
  \<^verbatim>\<open>num_cpus\<close> (\<open>aggr_scales_all\<close>). On the list of the CPU mask \<^verbatim>\<open>0,2-3\<close>: CPU 1
  has a negative file descriptor; with \<^verbatim>\<open>-A\<close> it is not scaled and three lines are
  printed; without \<^verbatim>\<open>-A\<close> it is scaled, its value, 0, is added, and the sum printed is
  123.
\<close>

theorem aggr_scales_sentinel_handle:
  "fd (efd masked_event ! 1) < 0
   \<and> Event_scaled_value masked_event 1 \<notin> set (print_data scaled_or_zero masked_el 0 False True)
   \<and> cpu_values (print_data scaled_or_zero masked_el 0 False True)
       = [(0, ''cpu-cycles'', 100), (2, ''cpu-cycles'', 20), (3, ''cpu-cycles'', 3)]
   \<and> Event_scaled_value masked_event 1 \<in> set (print_data scaled_or_zero masked_el 0 False False)
   \<and> scaled_or_zero masked_event 1 = 0
   \<and> aggr_values (print_data scaled_or_zero masked_el 0 False False) = [(''cpu-cycles'', 123)]"
  by code_simp

subsection \<open>Reading twice\<close>

lemma read_event_twice: "read_event k (read_event k' h) = read_event k h"
  by (simp add: read_event_def)

lemma read_all_events_twice:
  "read_all_events k (read_all_events k' l) = read_all_events k l"
  by (simp add: read_all_events_def comp_def read_event_twice)

text \<open>
  C7: a second read pass over the same counters leaves the event list, and with it every
  scaled value, as the first pass left it. More generally a read pass replaces whatever
  an earlier pass stored: the list after reading counters \<open>k\<close> is the same whether or
  not some other state \<open>k'\<close> of the counters was read before.
\<close>

theorem read_all_events_idempotent:
  "read_all_events k (read_all_events k l) = read_all_events k l
   \<and> scaled_values (read_all_events k (read_all_events k l)) = scaled_values (read_all_events k l)
   \<and> read_all_events k (read_all_events k' l) = read_all_events k l"
  by (simp add: read_all_events_twice)

subsection \<open>The shape of a run\<close>

lemma in_measure_no_aggr_loop: "a \<in> set (no_aggr_loop esv ts p e cpus) \<Longrightarrow> in_measure a"
  by (induction cpus) (auto simp: cpu_line_def print_ts_actions_def split: if_splits)

lemma in_measure_print_data: "a \<in> set (print_data esv l ts p na) \<Longrightarrow> in_measure a"
  by (auto simp: print_data_def print_data_aggr_def print_data_no_aggr_def print_event_aggr_eq
      print_ts_actions_def dest: in_measure_no_aggr_loop split: if_splits)

lemma in_measure_gettime: "a \<in> set (fst (gettime env g)) \<Longrightarrow> in_measure a"
  by (auto simp: gettime_def Let_def)

lemma in_measure_cont_measure: "a \<in> set (fst (cont_measure env ret l na g)) \<Longrightarrow> in_measure a"
  by (auto simp: cont_measure_def do_read_all_events_def gettime_def Let_def split_def
      dest: in_measure_print_data split: if_splits)

lemma in_measure_measure_loop:
  assumes "\<And>r. in_measure (wait r)"
  shows "a \<in> set (fst (measure_loop env wait armed ws l na g)) \<Longrightarrow> in_measure a"
proof (induction ws arbitrary: l g)
  case Nil
  then show ?case by simp
next
  case (Cons w ws)
  obtain ret alarm where w: "w = (ret, alarm)" by (cases w)
  show ?case
    using Cons.prems Cons.IH assms
    by (auto simp: w Let_def split_def dest: in_measure_cont_measure split: if_splits)
qed

lemma in_measure_measure: "a \<in> set (fst (measure env pid s)) \<Longrightarrow> in_measure a"
  by (auto simp: measure_def Let_def split_def do_read_all_events_def gettime_def
      dest: in_measure_print_data in_measure_measure_loop [rotated] split: if_splits option.splits)

lemma opt_loop_Opt_e:
  "opt_loop env s (Opt_e optarg # os) =
     (if fst (lib_parse_events env (el s) optarg) < 0
      then ([Parse_events (el s) optarg (fst (lib_parse_events env (el s) optarg))], Inl 1)
      else (Parse_events (el s) optarg (fst (lib_parse_events env (el s) optarg))
              # fst (opt_loop env (s\<lparr>el := snd (lib_parse_events env (el s) optarg), events := None\<rparr>) os),
            snd (opt_loop env (s\<lparr>el := snd (lib_parse_events env (el s) optarg), events := None\<rparr>) os)))"
  by (simp add: split_def Let_def)

declare opt_loop.simps(2) [simp del]

declare opt_loop_Opt_e [simp]

lemma opt_loop_Inr:
  "opt_loop env s os = (tr, Inr s') \<Longrightarrow> \<forall>a\<in>set tr. ok_parse a"
proof (induction env s os arbitrary: tr rule: opt_loop.induct)
  case (2 env s optarg os)
  then show ?case
    by (auto simp: opt_loop_Opt_e split: if_splits) (metis prod.collapse)+
qed (simp_all)

lemma opt_loop_Inl:
  "opt_loop env s os = (tr, Inl st) \<Longrightarrow>
     st = 1 \<and> (\<exists>xs a. tr = xs @ [a] \<and> (\<forall>x\<in>set xs. ok_parse x) \<and> (fail_parse a \<or> a = Usage))"
proof (induction env s os arbitrary: tr rule: opt_loop.induct)
  case (2 env s optarg os)
  let ?r = "fst (lib_parse_events env (el s) optarg)"
  let ?s = "s\<lparr>el := snd (lib_parse_events env (el s) optarg), events := None\<rparr>"
  show ?case
  proof (cases "?r < 0")
    case True
    then have "tr = [] @ [Parse_events (el s) optarg ?r]" and "st = 1"
      using "2.prems" by (simp_all add: opt_loop_Opt_e)
    then show ?thesis using True by fastforce
  next
    case False
    then have tr: "tr = Parse_events (el s) optarg ?r # fst (opt_loop env ?s os)"
      and res: "snd (opt_loop env ?s os) = Inl st"
      using "2.prems" by (simp_all add: opt_loop_Opt_e)
    have "opt_loop env ?s os = (fst (opt_loop env ?s os), Inl st)"
      using res by (metis prod.collapse)
    from "2.IH" [OF refl prod.collapse False this]
    obtain xs a where "st = 1" and "fst (opt_loop env ?s os) = xs @ [a]"
      and "\<forall>x\<in>set xs. ok_parse x" and "fail_parse a \<or> a = Usage"
      by blast
    then have "tr = (Parse_events (el s) optarg ?r # xs) @ [a]"
      and "\<forall>x\<in>set (Parse_events (el s) optarg ?r # xs). ok_parse x"
      using tr False by simp_all
    then show ?thesis using \<open>st = 1\<close> \<open>fail_parse a \<or> a = Usage\<close> by blast
  qed
next
  case (8 env s optarg os)
  then have "tr = [] @ [Usage]" and "st = 1" by simp_all
  then show ?case by fastforce
next
  case (9 env s os)
  then have "tr = [] @ [Usage]" and "st = 1" by simp_all
  then show ?case by fastforce
qed (simp_all)

lemma parse_default_cases:
  assumes "parse_default env s = (tr, res)"
  shows "(res = None \<and> (\<exists>a. tr = [a] \<and> fail_parse a))
       \<or> ((\<exists>s'. res = Some s') \<and> (\<forall>a\<in>set tr. ok_parse a))"
  using assms
  by (auto simp: parse_default_def Let_def split_def split: option.splits if_splits)

lemma child_in_child: "a \<in> set (fst (child env cmd)) \<Longrightarrow> in_child a"
  by (auto simp: child_def split: if_splits)

lemma after_setup_start_timer: "a \<in> set (start_timer ival) \<Longrightarrow> after_setup a"
  by (auto simp: start_timer_def split: if_splits)

lemma in_measure_after_setup: "in_measure a \<Longrightarrow> after_setup a"
  by (cases a) simp_all

lemma parent_cases:
  assumes "parent env pid s = (tr, out)"
  shows "(\<exists>a. tr = [a] \<and> fail_setup a \<and> out = Exit 1)
       \<or> (\<exists>a zs. tr = a # zs \<and> ok_setup a \<and> (\<forall>z\<in>set zs. after_setup z))"
proof -
  let ?r = "fst (lib_setup_events_cpumask env (el s) (measure_all s) pid (cpumask s))"
  let ?l = "snd (lib_setup_events_cpumask env (el s) (measure_all s) pid (cpumask s))"
  let ?a = "Setup_events_cpumask (el s) (measure_all s) pid (cpumask s) ?r"
  show ?thesis
  proof (cases "?r < 0")
    case True
    then have "tr = [?a]" and "out = Exit 1"
      using assms by (simp_all add: parent_def split_def Let_def)
    then show ?thesis using True by simp
  next
    case False
    define zs where "zs = (if verbose s \<noteq> 0
                           then [Print_event_list_attr (lib_print_event_list_attr env ?l)] else [])
                 @ Signal_sigint # start_timer (interval s) @ fst (measure env pid (s\<lparr>el := ?l\<rparr>))"
    have tr: "tr = ?a # zs"
      using assms False by (simp add: parent_def split_def Let_def zs_def)
    have "\<forall>z\<in>set zs. after_setup z"
      unfolding zs_def
      by (auto dest: after_setup_start_timer in_measure_measure in_measure_after_setup)
    then show ?thesis using tr False by simp
  qed
qed

lemma ok_parse_D:
  "ok_parse a \<Longrightarrow> before_setup a \<and> \<not> fail_parse a \<and> \<not> is_setup a \<and> \<not> is_read a \<and> \<not> is_print a
     \<and> \<not> is_fork a \<and> \<not> is_dump a \<and> \<not> fail_setup a \<and> \<not> ok_setup a \<and> a \<noteq> Usage"
  by (cases a) simp_all

lemma before_setup_D:
  "before_setup a \<Longrightarrow> \<not> fail_parse a \<and> \<not> is_setup a \<and> \<not> is_read a \<and> \<not> is_print a
     \<and> \<not> is_dump a \<and> \<not> fail_setup a \<and> \<not> ok_setup a \<and> a \<noteq> Usage"
  by (cases a) simp_all

lemma in_child_D:
  "in_child a \<Longrightarrow> \<not> fail_parse a \<and> \<not> is_setup a \<and> \<not> is_read a \<and> \<not> is_print a
     \<and> \<not> is_dump a \<and> \<not> fail_setup a \<and> \<not> ok_setup a \<and> a \<noteq> Usage"
  by (cases a) simp_all

lemma after_setup_D:
  "after_setup a \<Longrightarrow> \<not> fail_parse a \<and> \<not> is_setup a \<and> \<not> fail_setup a \<and> \<not> ok_setup a
     \<and> \<not> is_fork a \<and> a \<noteq> Usage"
  by (cases a) simp_all

lemma ok_setup_D:
  "ok_setup a \<Longrightarrow> is_setup a \<and> \<not> fail_setup a \<and> \<not> fail_parse a \<and> \<not> is_read a \<and> \<not> is_print a
     \<and> \<not> is_dump a \<and> \<not> is_fork a \<and> a \<noteq> Usage"
  by (cases a) simp_all

lemma fail_setup_D:
  "fail_setup a \<Longrightarrow> is_setup a \<and> \<not> ok_setup a \<and> \<not> fail_parse a \<and> \<not> is_read a \<and> \<not> is_print a
     \<and> \<not> is_dump a \<and> \<not> is_fork a \<and> a \<noteq> Usage"
  by (cases a) simp_all

lemma fail_parse_D:
  "fail_parse a \<Longrightarrow> \<not> is_setup a \<and> \<not> is_read a \<and> \<not> is_print a \<and> \<not> is_fork a \<and> \<not> is_dump a"
  by (cases a) simp_all

lemma run_forked_cases:
  assumes "run_forked env cmd s = (tr, out)"
  shows "\<exists>ys. tr = Pipe # Signal_ign_sigchld # Fork (os_fork env) # ys \<and>
          ((ys = [Perror ''fork''] \<and> out = Exit 1)
           \<or> (\<forall>y\<in>set ys. in_child y)
           \<or> (\<exists>a. ys = [a] \<and> fail_setup a \<and> out = Exit 1)
           \<or> (\<exists>a zs. ys = a # zs \<and> ok_setup a \<and> (\<forall>z\<in>set zs. after_setup z)))"
proof -
  consider "os_fork env < 0" | "os_fork env = 0" | "0 < os_fork env" by linarith
  then show ?thesis
  proof cases
    case 1
    then show ?thesis using assms by (auto simp: run_forked_def Let_def)
  next
    case 2
    then have "tr = Pipe # Signal_ign_sigchld # Fork (os_fork env) # fst (child env cmd)"
      using assms by (auto simp: run_forked_def Let_def split_def)
    then show ?thesis using child_in_child by blast
  next
    case 3
    then have tr: "tr = Pipe # Signal_ign_sigchld # Fork (os_fork env) # fst (parent env (os_fork env) s)"
      and out: "out = snd (parent env (os_fork env) s)"
      using assms by (auto simp: run_forked_def Let_def split_def)
    have "parent env (os_fork env) s = (fst (parent env (os_fork env) s), out)"
      by (simp add: out)
    from parent_cases [OF this] tr show ?thesis by blast
  qed
qed

lemma main_shape:
  assumes "main env opts cmd = (tr, out)"
  shows "(\<exists>xs a. tr = xs @ [a] \<and> (\<forall>x\<in>set xs. ok_parse x)
            \<and> (fail_parse a \<or> a = Usage \<or> a = Stderr specify_message) \<and> out = Exit 1)
       \<or> (\<exists>xs ys. tr = xs @ ys \<and> (\<forall>x\<in>set xs. before_setup x) \<and>
             ((ys = [Perror ''fork''] \<and> out = Exit 1)
              \<or> (\<forall>y\<in>set ys. in_child y)
              \<or> (\<exists>a. ys = [a] \<and> fail_setup a \<and> out = Exit 1)
              \<or> (\<exists>a zs. ys = a # zs \<and> ok_setup a \<and> (\<forall>z\<in>set zs. after_setup z))))"
    (is "?early \<or> ?late")
proof (cases "opt_loop env (init_locals env) opts")
  case (Pair tr1 res)
  show ?thesis
  proof (cases res)
    case (Inl st)
    then have "tr = tr1" and "out = Exit st"
      using assms Pair by (simp_all add: main_def)
    then show ?thesis using opt_loop_Inl [OF Pair [unfolded Inl]] by blast
  next
    case (Inr s)
    have tr1: "\<forall>a\<in>set tr1. ok_parse a"
      using opt_loop_Inr [OF Pair [unfolded Inr]] .
    show ?thesis
    proof (cases "cmd = [] \<and> \<not> measure_all s")
      case True
      then have "tr = tr1 @ [Stderr specify_message]" and "out = Exit 1"
        using assms Pair Inr by (simp_all add: main_def)
      then show ?thesis using tr1 by blast
    next
      case False
      obtain tr2 res2 where pd: "parse_default env s = (tr2, res2)"
        by (cases "parse_default env s")
      show ?thesis
      proof (cases res2)
        case None
        then have "tr = tr1 @ tr2" and "out = Exit 1"
          using assms Pair Inr False pd by (simp_all add: main_def)
        moreover obtain a where "tr2 = [a]" and "fail_parse a"
          using parse_default_cases [OF pd] None by auto
        ultimately show ?thesis using tr1 by blast
      next
        case (Some s2)
        obtain tr3 where tr: "tr = (tr1 @ tr2) @ tr3" and rf: "run_forked env cmd s2 = (tr3, out)"
          using assms Pair Inr False pd Some
          by (auto simp: main_def split_def Let_def)
        have tr2: "\<forall>a\<in>set tr2. ok_parse a"
          using parse_default_cases [OF pd] Some by auto
        from run_forked_cases [OF rf] obtain ys where
          tr3: "tr3 = Pipe # Signal_ign_sigchld # Fork (os_fork env) # ys"
          and ys: "(ys = [Perror ''fork''] \<and> out = Exit 1)
              \<or> (\<forall>y\<in>set ys. in_child y)
              \<or> (\<exists>a. ys = [a] \<and> fail_setup a \<and> out = Exit 1)
              \<or> (\<exists>a zs. ys = a # zs \<and> ok_setup a \<and> (\<forall>z\<in>set zs. after_setup z))"
          by blast
        have "tr = (tr1 @ tr2 @ [Pipe, Signal_ign_sigchld, Fork (os_fork env)]) @ ys"
          using tr tr3 by simp
        moreover have "\<forall>x\<in>set (tr1 @ tr2 @ [Pipe, Signal_ign_sigchld, Fork (os_fork env)]). before_setup x"
          using tr1 tr2 by (auto dest: ok_parse_D)
        ultimately have ?late using ys by blast
        then show ?thesis ..
      qed
    qed
  qed
qed

lemma nth_only_last:
  assumes "\<forall>x\<in>set xs. \<not> P x" and "i < length (xs @ [a])" and "P ((xs @ [a]) ! i)"
  shows "Suc i = length (xs @ [a])"
proof (rule ccontr)
  assume "Suc i \<noteq> length (xs @ [a])"
  then have "i < length xs" using assms(2) by simp
  then have "(xs @ [a]) ! i \<in> set xs" by (simp add: nth_append)
  then show False using assms(1,3) by blast
qed

lemma nth_none:
  assumes "\<forall>x\<in>set xs. \<not> P x" and "i < length xs" and "P (xs ! i)"
  shows False
  using assms nth_mem by blast

lemma nth_after:
  assumes "\<forall>x\<in>set xs. \<not> P x" and "\<not> P a" and "i < length (xs @ a # ys)" and "P ((xs @ a # ys) ! i)"
  shows "length xs < i"
proof (rule ccontr)
  assume "\<not> length xs < i"
  then consider "i < length xs" | "i = length xs" by linarith
  then show False
  proof cases
    case 1
    then have "(xs @ a # ys) ! i \<in> set xs" by (simp add: nth_append)
    then show ?thesis using assms(1,4) by blast
  next
    case 2
    then show ?thesis using assms(2,4) by simp
  qed
qed

lemma main_cases [consumes 1, case_names early perror child fail_setup ok_setup]:
  assumes "main env opts cmd = (tr, out)"
  obtains
    (early) xs a where "tr = xs @ [a]" and "\<forall>x\<in>set xs. ok_parse x"
      and "fail_parse a \<or> a = Usage \<or> a = Stderr specify_message" and "out = Exit 1"
  | (perror) xs where "tr = xs @ [Perror ''fork'']" and "\<forall>x\<in>set xs. before_setup x"
      and "out = Exit 1"
  | (child) xs ys where "tr = xs @ ys" and "\<forall>x\<in>set xs. before_setup x"
      and "\<forall>y\<in>set ys. in_child y"
  | (fail_setup) xs a where "tr = xs @ [a]" and "\<forall>x\<in>set xs. before_setup x"
      and "fail_setup a" and "out = Exit 1"
  | (ok_setup) xs a zs where "tr = xs @ a # zs" and "\<forall>x\<in>set xs. before_setup x"
      and "ok_setup a" and "\<forall>z\<in>set zs. after_setup z"
  using main_shape [OF assms] by blast

subsection \<open>Failing fast\<close>

text \<open>
  C4: when a call of \<^verbatim>\<open>parse_events\<close> returns a negative value, that call is the last
  thing the program does, the exit status is 1, and the run contains no call of
  \<^verbatim>\<open>setup_events_cpumask\<close> (nor a fork).
\<close>

theorem parse_failure_exits:
  assumes "main env opts cmd = (tr, out)" and "i < length tr" and "fail_parse (tr ! i)"
  shows "Suc i = length tr \<and> out = Exit 1 \<and> (\<forall>a\<in>set tr. \<not> is_setup a \<and> \<not> is_fork a)"
  using assms(1)
proof (cases rule: main_cases)
  case (early xs a)
  have "\<forall>x\<in>set xs. \<not> fail_parse x" using early(2) ok_parse_D by blast
  then have "Suc i = length tr"
    using assms(2,3) unfolding early(1) by (rule nth_only_last)
  moreover have "\<not> is_setup a \<and> \<not> is_fork a"
    using early(3) fail_parse_D by auto
  ultimately show ?thesis
    using early(2,4) ok_parse_D by (auto simp: early(1))
next
  case (perror xs)
  then have "\<forall>a\<in>set tr. \<not> fail_parse a" using before_setup_D by auto
  then show ?thesis using assms(2,3) nth_none by blast
next
  case (child xs ys)
  then have "\<forall>a\<in>set tr. \<not> fail_parse a" using before_setup_D in_child_D by auto
  then show ?thesis using assms(2,3) nth_none by blast
next
  case (fail_setup xs a)
  then have "\<forall>a\<in>set tr. \<not> fail_parse a" using before_setup_D fail_setup_D by auto
  then show ?thesis using assms(2,3) nth_none by blast
next
  case (ok_setup xs a zs)
  then have "\<forall>a\<in>set tr. \<not> fail_parse a"
    using before_setup_D ok_setup_D after_setup_D by auto
  then show ?thesis using assms(2,3) nth_none by blast
qed

lemma demo_run_fail_parse:
  "main demo_env [Opt_e ''cpu-cycles'', Opt_e ''bogus_event_xyz'', Opt_a] [] =
     ([Parse_events \<lparr>eventlist = [], num_cpus = 2\<rparr> ''cpu-cycles'' 0,
       Parse_events \<lparr>eventlist = [\<lparr>event = ''cpu-cycles'', extra_name = None,
            efd = [\<lparr>fd = - 1, val = None\<rparr>, \<lparr>fd = - 1, val = None\<rparr>]\<rparr>], num_cpus = 2\<rparr>
         ''bogus_event_xyz'' (- 1)], Exit 1)"
  by code_simp

theorem parse_failure_exits_witness:
  "fail_parse (fst (main demo_env [Opt_e ''cpu-cycles'', Opt_e ''bogus_event_xyz'', Opt_a] []) ! 1)
   \<and> length (fst (main demo_env [Opt_e ''cpu-cycles'', Opt_e ''bogus_event_xyz'', Opt_a] [])) = 2
   \<and> snd (main demo_env [Opt_e ''cpu-cycles'', Opt_e ''bogus_event_xyz'', Opt_a] []) = Exit 1"
  using parse_failure_exits [OF demo_run_fail_parse, of 1]
  by (simp add: demo_run_fail_parse)

text \<open>
  C5: when \<^verbatim>\<open>setup_events_cpumask\<close> returns a negative value, that call is the last
  thing the program does, the exit status is 1, and the run contains no call of
  \<^verbatim>\<open>read_all_events\<close> and no line of data.
\<close>

theorem setup_failure_aborts:
  assumes "main env opts cmd = (tr, out)" and "i < length tr" and "fail_setup (tr ! i)"
  shows "Suc i = length tr \<and> out = Exit 1 \<and> (\<forall>a\<in>set tr. \<not> is_read a \<and> \<not> is_print a)"
  using assms(1)
proof (cases rule: main_cases)
  case (early xs a)
  have "\<not> fail_setup a" using early(3) by (cases a) auto
  then have "\<forall>a\<in>set tr. \<not> fail_setup a"
    using early(2) ok_parse_D by (auto simp: early(1))
  then show ?thesis using assms(2,3) nth_none by blast
next
  case (perror xs)
  then have "\<forall>a\<in>set tr. \<not> fail_setup a" using before_setup_D by auto
  then show ?thesis using assms(2,3) nth_none by blast
next
  case (child xs ys)
  then have "\<forall>a\<in>set tr. \<not> fail_setup a" using before_setup_D in_child_D by auto
  then show ?thesis using assms(2,3) nth_none by blast
next
  case (fail_setup xs a)
  have "\<forall>x\<in>set xs. \<not> fail_setup x" using fail_setup(2) before_setup_D by blast
  then have "Suc i = length tr"
    using assms(2,3) unfolding fail_setup(1) by (rule nth_only_last)
  moreover have "\<forall>a\<in>set tr. \<not> is_read a \<and> \<not> is_print a"
    using fail_setup(2,3) before_setup_D fail_setup_D by (auto simp: fail_setup(1))
  ultimately show ?thesis using fail_setup(4) by simp
next
  case (ok_setup xs a zs)
  then have "\<forall>a\<in>set tr. \<not> fail_setup a"
    using before_setup_D ok_setup_D after_setup_D by auto
  then show ?thesis using assms(2,3) nth_none by blast
qed

theorem setup_failure_aborts_witness:
  "fail_setup (fst (main demo_env [Opt_a, Opt_C ''99''] []) ! 4)
   \<and> length (fst (main demo_env [Opt_a, Opt_C ''99''] [])) = 5
   \<and> snd (main demo_env [Opt_a, Opt_C ''99''] []) = Exit 1"
proof -
  have run: "main demo_env [Opt_a, Opt_C ''99''] []
               = (fst (main demo_env [Opt_a, Opt_C ''99''] []),
                  snd (main demo_env [Opt_a, Opt_C ''99''] []))"
    by simp
  have len: "4 < length (fst (main demo_env [Opt_a, Opt_C ''99''] []))"
    by code_simp
  have fail: "fail_setup (fst (main demo_env [Opt_a, Opt_C ''99''] []) ! 4)"
    by code_simp
  from setup_failure_aborts [OF run len fail] fail show ?thesis
    by simp
qed

text \<open>
  C6: every call of \<^verbatim>\<open>read_all_events\<close> in a run comes after a call of
  \<^verbatim>\<open>setup_events_cpumask\<close> that has returned a value that is not negative.
\<close>

theorem read_after_setup:
  assumes "main env opts cmd = (tr, out)" and "i < length tr" and "is_read (tr ! i)"
  shows "\<exists>j<i. ok_setup (tr ! j)"
  using assms(1)
proof (cases rule: main_cases)
  case (early xs a)
  have "\<not> is_read a" using early(3) by (cases a) auto
  then have "\<forall>a\<in>set tr. \<not> is_read a"
    using early(2) ok_parse_D by (auto simp: early(1))
  then show ?thesis using assms(2,3) nth_none by blast
next
  case (perror xs)
  then have "\<forall>a\<in>set tr. \<not> is_read a" using before_setup_D by auto
  then show ?thesis using assms(2,3) nth_none by blast
next
  case (child xs ys)
  then have "\<forall>a\<in>set tr. \<not> is_read a" using before_setup_D in_child_D by auto
  then show ?thesis using assms(2,3) nth_none by blast
next
  case (fail_setup xs a)
  then have "\<forall>a\<in>set tr. \<not> is_read a" using before_setup_D fail_setup_D by auto
  then show ?thesis using assms(2,3) nth_none by blast
next
  case (ok_setup xs a zs)
  have "\<forall>x\<in>set xs. \<not> is_read x" using ok_setup(2) before_setup_D by blast
  moreover have "\<not> is_read a" using ok_setup(3) ok_setup_D by blast
  ultimately have "length xs < i"
    using assms(2,3) unfolding ok_setup(1) by (rule nth_after)
  moreover have "tr ! length xs = a" by (simp add: ok_setup(1))
  ultimately show ?thesis using ok_setup(3) by blast
qed

theorem read_after_setup_witness:
  "is_read (fst (main demo_env [Opt_a, Opt_e ''cpu-cycles''] []) ! 8)
   \<and> (\<exists>j<8. ok_setup (fst (main demo_env [Opt_a, Opt_e ''cpu-cycles''] []) ! j))"
proof -
  have run: "main demo_env [Opt_a, Opt_e ''cpu-cycles''] []
               = (fst (main demo_env [Opt_a, Opt_e ''cpu-cycles''] []),
                  snd (main demo_env [Opt_a, Opt_e ''cpu-cycles''] []))"
    by simp
  have len: "8 < length (fst (main demo_env [Opt_a, Opt_e ''cpu-cycles''] []))"
    by code_simp
  have rd: "is_read (fst (main demo_env [Opt_a, Opt_e ''cpu-cycles''] []) ! 8)"
    by code_simp
  from read_after_setup [OF run len rd] rd show ?thesis
    by simp
qed

subsection \<open>Neither a command nor \<^verbatim>\<open>-a\<close>\<close>

lemma opt_loop_measure_all:
  "opt_loop env s os = (tr, Inr s') \<Longrightarrow> measure_all s' = (measure_all s \<or> Opt_a \<in> set os)"
proof (induction env s os arbitrary: tr rule: opt_loop.induct)
  case (2 env s optarg os)
  let ?s = "s\<lparr>el := snd (lib_parse_events env (el s) optarg), events := None\<rparr>"
  have nf: "\<not> fst (lib_parse_events env (el s) optarg) < 0"
    using "2.prems" by (auto split: if_splits)
  then have "opt_loop env ?s os = (fst (opt_loop env ?s os), Inr s')"
    using "2.prems" by (simp add: prod_eq_iff)
  from "2.IH" [OF refl prod.collapse nf this] show ?case by simp
qed auto

text \<open>
  C10, as the code has it: when no command is given and \<^verbatim>\<open>-a\<close> is not among the
  options, the program exits with status 1 without a fork and without a call of
  \<^verbatim>\<open>setup_events_cpumask\<close>. The message \<^verbatim>\<open>Specify command or -a\<close> is written exactly
  when the option loop came to its end, that is when no \<^verbatim>\<open>-e\<close> failed to parse and
  \<^verbatim>\<open>usage\<close> was not called; it is then the last thing the program does.
\<close>

theorem no_command_no_all:
  assumes "Opt_a \<notin> set opts" and "main env opts [] = (tr, out)"
  shows "out = Exit 1 \<and> (\<forall>a\<in>set tr. \<not> is_fork a \<and> \<not> is_setup a)
       \<and> (Stderr specify_message \<in> set tr \<longleftrightarrow> (\<forall>a\<in>set tr. \<not> fail_parse a \<and> a \<noteq> Usage))
       \<and> (Stderr specify_message \<in> set tr \<longrightarrow> last tr = Stderr specify_message)"
proof (cases "opt_loop env (init_locals env) opts")
  case (Pair tr1 res)
  show ?thesis
  proof (cases res)
    case (Inl st)
    then have tr: "tr = tr1" and out: "out = Exit st"
      using assms(2) Pair by (simp_all add: main_def)
    from opt_loop_Inl [OF Pair [unfolded Inl]] obtain xs a where
      st: "st = 1" and tr1: "tr1 = xs @ [a]" and xs: "\<forall>x\<in>set xs. ok_parse x"
      and a: "fail_parse a \<or> a = Usage" by blast
    have "\<forall>x\<in>set xs. \<not> is_fork x \<and> \<not> is_setup x \<and> x \<noteq> Stderr specify_message"
      using xs by (auto dest: ok_parse_D)
    moreover have "\<not> is_fork a \<and> \<not> is_setup a \<and> a \<noteq> Stderr specify_message"
      using a by (auto dest: fail_parse_D)
    ultimately show ?thesis
      using a by (auto simp: tr tr1 out st)
  next
    case (Inr s)
    have "measure_all s = (measure_all (init_locals env) \<or> Opt_a \<in> set opts)"
      using Pair [unfolded Inr] by (rule opt_loop_measure_all)
    then have "\<not> measure_all s"
      using assms(1) by (simp add: init_locals_def)
    then have tr: "tr = tr1 @ [Stderr specify_message]" and out: "out = Exit 1"
      using assms(2) Pair Inr by (simp_all add: main_def)
    have "\<forall>x\<in>set tr1. ok_parse x"
      using Pair [unfolded Inr] by (rule opt_loop_Inr)
    then have "\<forall>x\<in>set tr1. \<not> is_fork x \<and> \<not> is_setup x \<and> \<not> fail_parse x \<and> x \<noteq> Usage"
      by (auto dest: ok_parse_D)
    then show ?thesis
      by (auto simp: tr out)
  qed
qed

lemma demo_run_nothing: "main demo_env [Opt_A] [] = ([Stderr specify_message], Exit 1)"
  by code_simp

theorem no_command_no_all_witness:
  "Opt_a \<notin> set [Opt_A] \<and> main demo_env [Opt_A] [] = ([Stderr specify_message], Exit 1)
   \<and> last (fst (main demo_env [Opt_A] [])) = Stderr specify_message"
  using no_command_no_all [of "[Opt_A]" demo_env "[Stderr specify_message]" "Exit 1"] demo_run_nothing
  by simp

text \<open>
  With \<^verbatim>\<open>-e bogus_event_xyz\<close> alone on the command line the program exits in the
  option loop, with status 1 and without the message.
\<close>

theorem no_command_no_all_counterexample:
  "Opt_a \<notin> set [Opt_e ''bogus_event_xyz'']
   \<and> main demo_env [Opt_e ''bogus_event_xyz''] []
       = ([Parse_events \<lparr>eventlist = [], num_cpus = 2\<rparr> ''bogus_event_xyz'' (- 1)], Exit 1)
   \<and> Stderr specify_message \<notin> set (fst (main demo_env [Opt_e ''bogus_event_xyz''] []))"
  by code_simp

subsection \<open>Which specifications are parsed\<close>

lemma parse_calls_Nil [simp]: "parse_calls [] = []"
  by (simp add: parse_calls_def)

lemma parse_calls_Cons: "parse_calls (a # tr) = parsed a @ parse_calls tr"
  by (simp add: parse_calls_def)

lemma parse_calls_append [simp]: "parse_calls (xs @ ys) = parse_calls xs @ parse_calls ys"
  by (simp add: parse_calls_def)

lemma parse_calls_none: "\<forall>a\<in>set tr. parsed a = [] \<Longrightarrow> parse_calls tr = []"
  by (induction tr) (simp_all add: parse_calls_Cons)

lemma e_args_Cons: "e_args (a # os) = e_arg a @ e_args os"
  by (simp add: e_args_def)

lemma e_args_Nil [simp]: "e_args [] = []"
  by (simp add: e_args_def)

lemma parse_calls_opt_loop:
  "parse_calls (fst (opt_loop env s os))
     = parse_seq env (el s) (e_args (takeWhile (\<lambda>a. \<not> rejected a) os))"
proof (induction env s os rule: opt_loop.induct)
  case (2 env s optarg os)
  show ?case
  proof (cases "fst (lib_parse_events env (el s) optarg) < 0")
    case True
    then show ?thesis
      by (simp add: parse_calls_Cons e_args_Cons split_def Let_def)
  next
    case False
    from "2.IH" [OF refl prod.collapse False] False show ?thesis
      by (simp add: parse_calls_Cons e_args_Cons split_def Let_def)
  qed
qed (simp_all add: parse_calls_Cons e_args_Cons)

lemma opt_loop_no_e:
  "e_args os = [] \<Longrightarrow> \<forall>a\<in>set os. \<not> rejected a \<Longrightarrow>
     \<exists>s'. opt_loop env s os = ([], Inr s') \<and> el s' = el s \<and> events s' = events s
           \<and> measure_all s' = (measure_all s \<or> Opt_a \<in> set os)"
  by (induction env s os rule: opt_loop.induct) (auto simp: e_args_Cons)

lemma opt_loop_events:
  "opt_loop env s os = (tr, Inr s') \<Longrightarrow> events s' = (if e_args os = [] then events s else None)"
proof (induction env s os arbitrary: tr rule: opt_loop.induct)
  case (2 env s optarg os)
  let ?s = "s\<lparr>el := snd (lib_parse_events env (el s) optarg), events := None\<rparr>"
  have nf: "\<not> fst (lib_parse_events env (el s) optarg) < 0"
    using "2.prems" by (auto split: if_splits)
  then have run: "opt_loop env ?s os = (fst (opt_loop env ?s os), Inr s')"
    using "2.prems" by (simp add: prod_eq_iff)
  from "2.IH" [OF refl prod.collapse nf run] show ?case
    by (simp add: e_args_Cons)
qed (auto simp: e_args_Cons)

lemma parsed_before_setup: "before_setup a \<Longrightarrow> \<not> ok_parse a \<Longrightarrow> parsed a = []"
  by (cases a) simp_all

lemma parsed_in_child: "in_child a \<Longrightarrow> parsed a = []"
  by (cases a) simp_all

lemma parsed_after_setup: "after_setup a \<Longrightarrow> parsed a = []"
  by (cases a) simp_all

lemma parsed_ok_setup: "ok_setup a \<Longrightarrow> parsed a = []"
  by (cases a) simp_all

lemma parsed_fail_setup: "fail_setup a \<Longrightarrow> parsed a = []"
  by (cases a) simp_all

lemma parse_calls_run_forked: "parse_calls (fst (run_forked env cmd s)) = []"
proof -
  obtain tr out where rf: "run_forked env cmd s = (tr, out)"
    by (cases "run_forked env cmd s")
  from run_forked_cases [OF rf] obtain ys where
    tr: "tr = Pipe # Signal_ign_sigchld # Fork (os_fork env) # ys"
    and ys: "(ys = [Perror ''fork''] \<and> out = Exit 1)
           \<or> (\<forall>y\<in>set ys. in_child y)
           \<or> (\<exists>a. ys = [a] \<and> fail_setup a \<and> out = Exit 1)
           \<or> (\<exists>a zs. ys = a # zs \<and> ok_setup a \<and> (\<forall>z\<in>set zs. after_setup z))"
    by blast
  have "\<forall>y\<in>set ys. parsed y = []"
    using ys
    by (auto simp: parsed_in_child parsed_after_setup parsed_ok_setup parsed_fail_setup)
  then show ?thesis
    by (simp add: rf tr parse_calls_Cons parse_calls_none)
qed

text \<open>
  C9, as the code has it: with no \<^verbatim>\<open>-e\<close>, no option that \<^verbatim>\<open>usage\<close> rejects, and a
  command or \<^verbatim>\<open>-a\<close>, the one call of \<^verbatim>\<open>parse_events\<close> is for the default
  specification, on the list that \<^verbatim>\<open>alloc_eventlist\<close> returned. With at least one
  \<^verbatim>\<open>-e\<close> the default is not parsed: the calls are those of the \<^verbatim>\<open>-e\<close> arguments that
  precede the first rejected option, in command-line order, each on the list as the call
  before left it, up to the first that fails.
\<close>

theorem events_parsed:
  "(e_args opts = [] \<and> (\<forall>a\<in>set opts. \<not> rejected a) \<and> (cmd \<noteq> [] \<or> Opt_a \<in> set opts) \<longrightarrow>
      parse_calls (fst (main env opts cmd))
        = parse_seq env (lib_alloc_eventlist env) [default_events])
   \<and> (e_args opts \<noteq> [] \<longrightarrow>
      parse_calls (fst (main env opts cmd))
        = parse_seq env (lib_alloc_eventlist env)
            (e_args (takeWhile (\<lambda>a. \<not> rejected a) opts)))"
proof (intro conjI impI)
  assume a: "e_args opts = [] \<and> (\<forall>a\<in>set opts. \<not> rejected a) \<and> (cmd \<noteq> [] \<or> Opt_a \<in> set opts)"
  then obtain s where ol: "opt_loop env (init_locals env) opts = ([], Inr s)"
    and el: "el s = lib_alloc_eventlist env" and ev: "events s = Some default_events"
    and ma: "measure_all s = (Opt_a \<in> set opts)"
    using opt_loop_no_e [of opts env "init_locals env"] by (auto simp: init_locals_def)
  have go: "\<not> (cmd = [] \<and> \<not> measure_all s)" using a ma by simp
  let ?r = "fst (lib_parse_events env (lib_alloc_eventlist env) default_events)"
  show "parse_calls (fst (main env opts cmd))
          = parse_seq env (lib_alloc_eventlist env) [default_events]"
  proof (cases "?r < 0")
    case True
    then show ?thesis
      using ol go el ev
      by (simp add: main_def parse_default_def split_def Let_def parse_calls_Cons)
  next
    case False
    then show ?thesis
      using ol go el ev
      by (simp add: main_def parse_default_def split_def Let_def parse_calls_Cons
          parse_calls_run_forked)
  qed
next
  assume e: "e_args opts \<noteq> []"
  obtain tr1 res where ol: "opt_loop env (init_locals env) opts = (tr1, res)"
    by (cases "opt_loop env (init_locals env) opts")
  have calls: "parse_calls tr1 = parse_seq env (lib_alloc_eventlist env)
                  (e_args (takeWhile (\<lambda>a. \<not> rejected a) opts))"
    using parse_calls_opt_loop [of env "init_locals env" opts] ol
    by (simp add: init_locals_def)
  show "parse_calls (fst (main env opts cmd))
          = parse_seq env (lib_alloc_eventlist env)
              (e_args (takeWhile (\<lambda>a. \<not> rejected a) opts))"
  proof (cases res)
    case (Inl st)
    then show ?thesis using ol calls by (simp add: main_def)
  next
    case (Inr s)
    have "events s = None"
      using opt_loop_events [OF ol [unfolded Inr]] e by simp
    then show ?thesis
      using ol Inr calls
      by (simp add: main_def parse_default_def split_def Let_def parse_calls_Cons
          parse_calls_run_forked)
  qed
qed

theorem events_parsed_witness:
  "parse_calls (fst (main demo_env [Opt_a] []))
     = [(\<lparr>eventlist = [], num_cpus = 2\<rparr>, default_events, 0)]
   \<and> map (fst \<circ> snd) (parse_calls (fst (main demo_env [Opt_e ''cpu-cycles'', Opt_a, Opt_e ''instructions''] [])))
     = [''cpu-cycles'', ''instructions'']"
proof -
  have a: "e_args [Opt_a] = [] \<and> (\<forall>a\<in>set [Opt_a]. \<not> rejected a) \<and> (([]::string list) \<noteq> [] \<or> Opt_a \<in> set [Opt_a])"
    by code_simp
  have b: "e_args [Opt_e ''cpu-cycles'', Opt_a, Opt_e ''instructions''] \<noteq> []"
    by code_simp
  have c: "parse_seq demo_env (lib_alloc_eventlist demo_env) [default_events]
             = [(\<lparr>eventlist = [], num_cpus = 2\<rparr>, default_events, 0)]"
    by code_simp
  have d: "map (fst \<circ> snd) (parse_seq demo_env (lib_alloc_eventlist demo_env)
            (e_args (takeWhile (\<lambda>a. \<not> rejected a) [Opt_e ''cpu-cycles'', Opt_a, Opt_e ''instructions''])))
             = [''cpu-cycles'', ''instructions'']"
    by code_simp
  show ?thesis
    using events_parsed [of "[Opt_a]" "[]" demo_env]
      events_parsed [of "[Opt_e ''cpu-cycles'', Opt_a, Opt_e ''instructions'']" "[]" demo_env]
      a b c d
    by simp
qed

text \<open>
  With an empty command line nothing is parsed: the program stops at the check for a
  command or \<^verbatim>\<open>-a\<close>, which comes before the default is parsed.
\<close>

theorem events_parsed_counterexample:
  "e_args [] = [] \<and> main demo_env [] [] = ([Stderr specify_message], Exit 1)
   \<and> parse_calls (fst (main demo_env [] [])) = []"
  by code_simp

subsection \<open>The option \<^verbatim>\<open>-v\<close>\<close>

lemma print_event_list_attr_lines:
  "length (print_event_list_attr attr_line l) = sum_list (map (\<lambda>e. length (efd e)) (eventlist l))"
  by (simp add: print_event_list_attr_def length_concat comp_def)

lemma same_but_verbose_refl [simp]: "same_but_verbose s s"
  by (simp add: same_but_verbose_def)

lemma opt_loop_strip_v:
  "same_but_verbose s s' \<Longrightarrow>
     fst (opt_loop env s' (filter (\<lambda>a. a \<noteq> Opt_v) os)) = fst (opt_loop env s os)
     \<and> rel_sum (=) same_but_verbose (snd (opt_loop env s os))
          (snd (opt_loop env s' (filter (\<lambda>a. a \<noteq> Opt_v) os)))"
proof (induction os arbitrary: s s')
  case Nil
  then show ?case by simp
next
  case (Cons a os)
  show ?case
  proof (cases a)
    case Opt_a
    have "same_but_verbose (s\<lparr>measure_all := True\<rparr>) (s'\<lparr>measure_all := True\<rparr>)"
      using Cons.prems by (simp add: same_but_verbose_def)
    from Cons.IH [OF this] show ?thesis by (simp add: Opt_a)
  next
    case (Opt_e optarg)
    have el: "el s = el s'" using Cons.prems by (simp add: same_but_verbose_def)
    have "same_but_verbose (s\<lparr>el := snd (lib_parse_events env (el s') optarg), events := None\<rparr>)
            (s'\<lparr>el := snd (lib_parse_events env (el s') optarg), events := None\<rparr>)"
      using Cons.prems by (simp add: same_but_verbose_def)
    from Cons.IH [OF this] show ?thesis by (simp add: Opt_e el)
  next
    case (Opt_p optarg)
    then show ?thesis by simp
  next
    case (Opt_I optarg)
    have "same_but_verbose (s\<lparr>interval := os_atoi env optarg\<rparr>) (s'\<lparr>interval := os_atoi env optarg\<rparr>)"
      using Cons.prems by (simp add: same_but_verbose_def)
    from Cons.IH [OF this] show ?thesis by (simp add: Opt_I)
  next
    case (Opt_C optarg)
    have "same_but_verbose (s\<lparr>cpumask := Some optarg\<rparr>) (s'\<lparr>cpumask := Some optarg\<rparr>)"
      using Cons.prems by (simp add: same_but_verbose_def)
    from Cons.IH [OF this] show ?thesis by (simp add: Opt_C)
  next
    case Opt_A
    have "same_but_verbose (s\<lparr>no_aggr := True\<rparr>) (s'\<lparr>no_aggr := True\<rparr>)"
      using Cons.prems by (simp add: same_but_verbose_def)
    from Cons.IH [OF this] show ?thesis by (simp add: Opt_A)
  next
    case Opt_v
    have "same_but_verbose (s\<lparr>verbose := verbose s + 1\<rparr>) s'"
      using Cons.prems by (simp add: same_but_verbose_def)
    from Cons.IH [OF this] show ?thesis by (simp add: Opt_v)
  next
    case Opt_unknown
    then show ?thesis by simp
  qed
qed

lemma opt_loop_verbose:
  "opt_loop env s os = (tr, Inr s') \<Longrightarrow>
     verbose s' = verbose s + int (length (filter (\<lambda>a. a = Opt_v) os))"
proof (induction env s os arbitrary: tr rule: opt_loop.induct)
  case (2 env s optarg os)
  let ?s = "s\<lparr>el := snd (lib_parse_events env (el s) optarg), events := None\<rparr>"
  have nf: "\<not> fst (lib_parse_events env (el s) optarg) < 0"
    using "2.prems" by (auto split: if_splits)
  then have run: "opt_loop env ?s os = (fst (opt_loop env ?s os), Inr s')"
    using "2.prems" by (simp add: prod_eq_iff)
  from "2.IH" [OF refl prod.collapse nf run] show ?case by simp
qed auto

lemma opt_loop_verbose_iff:
  assumes "opt_loop env (init_locals env) os = (tr, Inr s')"
  shows "verbose s' \<noteq> 0 \<longleftrightarrow> Opt_v \<in> set os"
proof -
  have "verbose s' = int (length (filter (\<lambda>a. a = Opt_v) os))"
    using opt_loop_verbose [OF assms] by (simp add: init_locals_def)
  moreover have "length (filter (\<lambda>a. a = Opt_v) os) \<noteq> 0 \<longleftrightarrow> Opt_v \<in> set os"
    by (auto simp: filter_empty_conv)
  ultimately show ?thesis by simp
qed

lemma measure_cong:
  "interval s = interval s' \<Longrightarrow> el s = el s' \<Longrightarrow> no_aggr s = no_aggr s' \<Longrightarrow>
     measure env pid s = measure env pid s'"
  by (simp add: measure_def)

lemma in_measure_no_dump: "in_measure a \<Longrightarrow> \<not> is_dump a"
  by (cases a) simp_all

lemma start_timer_no_dump: "a \<in> set (start_timer ival) \<Longrightarrow> \<not> is_dump a"
  by (auto simp: start_timer_def split: if_splits)

lemma filter_no_dump: "\<forall>a\<in>set tr. \<not> is_dump a \<Longrightarrow> filter (\<lambda>a. \<not> is_dump a) tr = tr"
  by (induction tr) simp_all

lemma parent_strip:
  assumes "same_but_verbose s s'" and "verbose s' = 0"
  shows "snd (parent env pid s) = snd (parent env pid s')
       \<and> filter (\<lambda>a. \<not> is_dump a) (fst (parent env pid s)) = fst (parent env pid s')"
proof -
  have eq: "el s = el s'" "measure_all s = measure_all s'" "cpumask s = cpumask s'"
    "interval s = interval s'" "no_aggr s = no_aggr s'"
    using assms(1) by (simp_all add: same_but_verbose_def)
  let ?l = "snd (lib_setup_events_cpumask env (el s') (measure_all s') pid (cpumask s'))"
  have m: "measure env pid (s\<lparr>el := ?l\<rparr>) = measure env pid (s'\<lparr>el := ?l\<rparr>)"
    by (rule measure_cong) (simp_all add: eq)
  have f1: "filter (\<lambda>a. \<not> is_dump a) (start_timer (interval s')) = start_timer (interval s')"
    by (rule filter_no_dump) (auto dest: start_timer_no_dump)
  have f2: "filter (\<lambda>a. \<not> is_dump a) (fst (measure env pid (s'\<lparr>el := ?l\<rparr>)))
              = fst (measure env pid (s'\<lparr>el := ?l\<rparr>))"
    by (rule filter_no_dump) (auto dest: in_measure_measure in_measure_no_dump)
  show ?thesis
    by (simp add: parent_def split_def Let_def eq m assms(2) f1 f2)
qed

lemma child_no_dump: "a \<in> set (fst (child env cmd)) \<Longrightarrow> \<not> is_dump a"
  by (auto dest!: child_in_child in_child_D)

lemma run_forked_strip:
  assumes "same_but_verbose s s'" and "verbose s' = 0"
  shows "snd (run_forked env cmd s) = snd (run_forked env cmd s')
       \<and> filter (\<lambda>a. \<not> is_dump a) (fst (run_forked env cmd s)) = fst (run_forked env cmd s')"
proof -
  have c: "filter (\<lambda>a. \<not> is_dump a) (fst (child env cmd)) = fst (child env cmd)"
    by (rule filter_no_dump) (auto dest: child_no_dump)
  show ?thesis
    using parent_strip [OF assms, of env "os_fork env"] c
    by (simp add: run_forked_def split_def Let_def)
qed

lemma parse_default_strip:
  assumes "same_but_verbose s s'"
  shows "fst (parse_default env s) = fst (parse_default env s')
       \<and> rel_option same_but_verbose (snd (parse_default env s)) (snd (parse_default env s'))
       \<and> (\<forall>t. snd (parse_default env s') = Some t \<longrightarrow> verbose t = verbose s')"
proof -
  have eq: "el s = el s'" "events s = events s'"
    using assms by (simp_all add: same_but_verbose_def)
  show ?thesis
    using assms
    by (auto simp: parse_default_def split_def Let_def eq same_but_verbose_def split: option.splits)
qed

lemma parse_default_no_dump: "a \<in> set (fst (parse_default env s)) \<Longrightarrow> \<not> is_dump a"
  by (auto simp: parse_default_def split_def Let_def split: option.splits)

lemma is_dump_D: "is_dump a \<Longrightarrow> \<not> fail_parse a \<and> \<not> ok_parse a \<and> a \<noteq> Usage"
  by (cases a) simp_all

lemma opt_loop_no_dump: "a \<in> set (fst (opt_loop env s os)) \<Longrightarrow> \<not> is_dump a"
proof -
  assume a: "a \<in> set (fst (opt_loop env s os))"
  obtain tr res where ol: "opt_loop env s os = (tr, res)" by (cases "opt_loop env s os")
  show ?thesis
  proof (cases res)
    case (Inl st)
    from opt_loop_Inl [OF ol [unfolded Inl]] obtain xs b where
      "tr = xs @ [b]" and "\<forall>x\<in>set xs. ok_parse x" and "fail_parse b \<or> b = Usage"
      by blast
    moreover have "a \<in> set tr" using a ol by simp
    ultimately show ?thesis using is_dump_D by auto
  next
    case (Inr s')
    from opt_loop_Inr [OF ol [unfolded Inr]] a ol show ?thesis
      using is_dump_D by auto
  qed
qed

lemma main_strip_v:
  "snd (main env opts cmd) = snd (main env (filter (\<lambda>a. a \<noteq> Opt_v) opts) cmd)
   \<and> filter (\<lambda>a. \<not> is_dump a) (fst (main env opts cmd))
       = fst (main env (filter (\<lambda>a. a \<noteq> Opt_v) opts) cmd)"
proof -
  let ?opts' = "filter (\<lambda>a. a \<noteq> Opt_v) opts"
  obtain tr1 res where ol: "opt_loop env (init_locals env) opts = (tr1, res)"
    by (cases "opt_loop env (init_locals env) opts")
  obtain tr1' res' where ol': "opt_loop env (init_locals env) ?opts' = (tr1', res')"
    by (cases "opt_loop env (init_locals env) ?opts'")
  have rel: "tr1' = tr1" "rel_sum (=) same_but_verbose res res'"
    using opt_loop_strip_v [of "init_locals env" "init_locals env" env opts] ol ol' by simp_all
  have f1: "filter (\<lambda>a. \<not> is_dump a) tr1 = tr1"
    by (rule filter_no_dump) (use opt_loop_no_dump [of _ env "init_locals env" opts] ol in auto)
  show ?thesis
  proof (cases res)
    case (Inl st)
    then have "res' = Inl st" using rel(2) by (cases res') simp_all
    then show ?thesis using ol ol' Inl rel(1) f1 by (simp add: main_def)
  next
    case (Inr s)
    then obtain s' where res': "res' = Inr s'" and ss: "same_but_verbose s s'"
      using rel(2) by (cases res') simp_all
    have v: "verbose s' = 0"
      using opt_loop_verbose [OF ol' [unfolded res']] by (simp add: init_locals_def)
    have ma: "measure_all s = measure_all s'" using ss by (simp add: same_but_verbose_def)
    show ?thesis
    proof (cases "cmd = [] \<and> \<not> measure_all s")
      case True
      then show ?thesis using ol ol' Inr res' rel(1) f1 ma by (simp add: main_def)
    next
      case False
      then have go: "(cmd = [] \<and> \<not> measure_all s) = False" "(cmd = [] \<and> \<not> measure_all s') = False"
        using ma by simp_all
      note pd = parse_default_strip [OF ss, of env]
      have f2: "filter (\<lambda>a. \<not> is_dump a) (fst (parse_default env s')) = fst (parse_default env s')"
        by (rule filter_no_dump) (auto dest: parse_default_no_dump)
      show ?thesis
      proof (cases "snd (parse_default env s)")
        case None
        then have "snd (parse_default env s') = None" using pd by (cases "snd (parse_default env s')") simp_all
        then show ?thesis
          using ol ol' Inr res' rel(1) f1 f2 None pd
          by (simp add: main_def split_def go)
      next
        case (Some t)
        then obtain t' where t': "snd (parse_default env s') = Some t'" and tt: "same_but_verbose t t'"
          using pd by (cases "snd (parse_default env s')") simp_all
        have "verbose t' = 0" using pd t' v by simp
        from run_forked_strip [OF tt this, of env cmd] show ?thesis
          using ol ol' Inr res' rel(1) f1 f2 Some t' pd
          by (simp add: main_def split_def Let_def go)
      qed
    qed
  qed
qed

lemma after_setup_rest:
  "z \<in> set (Signal_sigint # start_timer ival @ fst (measure env pid s)) \<Longrightarrow>
     after_setup z \<and> \<not> is_dump z"
  by (auto dest: after_setup_start_timer start_timer_no_dump in_measure_measure
      in_measure_after_setup in_measure_no_dump)

lemma parent_dump:
  assumes "parent env pid s = (tr, out)"
  shows "(\<forall>a\<in>set tr. \<not> is_dump a \<and> \<not> ok_setup a)
       \<or> (\<exists>l ma cm r zs.
             tr = Setup_events_cpumask l ma pid cm r
                  # (if verbose s \<noteq> 0
                     then [Print_event_list_attr
                            (lib_print_event_list_attr env (snd (lib_setup_events_cpumask env l ma pid cm)))]
                     else []) @ zs
             \<and> 0 \<le> r \<and> (\<forall>z\<in>set zs. after_setup z \<and> \<not> is_dump z))"
proof -
  let ?r = "fst (lib_setup_events_cpumask env (el s) (measure_all s) pid (cpumask s))"
  let ?l = "snd (lib_setup_events_cpumask env (el s) (measure_all s) pid (cpumask s))"
  show ?thesis
  proof (cases "?r < 0")
    case True
    then have "tr = [Setup_events_cpumask (el s) (measure_all s) pid (cpumask s) ?r]"
      using assms by (simp add: parent_def split_def Let_def)
    then show ?thesis using True by simp
  next
    case False
    define zs where "zs = Signal_sigint # start_timer (interval s) @ fst (measure env pid (s\<lparr>el := ?l\<rparr>))"
    have "tr = Setup_events_cpumask (el s) (measure_all s) pid (cpumask s) ?r
                  # (if verbose s \<noteq> 0
                     then [Print_event_list_attr (lib_print_event_list_attr env ?l)]
                     else []) @ zs"
      using assms False by (simp add: parent_def split_def Let_def zs_def)
    moreover have "\<forall>z\<in>set zs. after_setup z \<and> \<not> is_dump z"
      unfolding zs_def using after_setup_rest by blast
    ultimately show ?thesis using False by fastforce
  qed
qed

lemma run_forked_dump:
  assumes "run_forked env cmd s = (tr, out)"
  shows "(\<forall>a\<in>set tr. \<not> is_dump a \<and> \<not> ok_setup a)
       \<or> (\<exists>xs l ma pid cm r zs.
             tr = xs @ Setup_events_cpumask l ma pid cm r
                  # (if verbose s \<noteq> 0
                     then [Print_event_list_attr
                            (lib_print_event_list_attr env (snd (lib_setup_events_cpumask env l ma pid cm)))]
                     else []) @ zs
             \<and> 0 \<le> r \<and> (\<forall>x\<in>set xs. before_setup x) \<and> (\<forall>z\<in>set zs. after_setup z \<and> \<not> is_dump z))"
proof -
  consider "os_fork env < 0" | "os_fork env = 0" | "0 < os_fork env" by linarith
  then show ?thesis
  proof cases
    case 1
    then have "tr = [Pipe, Signal_ign_sigchld, Fork (os_fork env), Perror ''fork'']"
      using assms by (auto simp: run_forked_def Let_def)
    then show ?thesis by simp
  next
    case 2
    then have "tr = Pipe # Signal_ign_sigchld # Fork (os_fork env) # fst (child env cmd)"
      using assms by (auto simp: run_forked_def Let_def split_def)
    then have "\<forall>a\<in>set tr. \<not> is_dump a \<and> \<not> ok_setup a"
      by (auto dest!: child_in_child in_child_D)
    then show ?thesis ..
  next
    case 3
    then have tr: "tr = [Pipe, Signal_ign_sigchld, Fork (os_fork env)] @ fst (parent env (os_fork env) s)"
      using assms by (auto simp: run_forked_def Let_def split_def)
    have "parent env (os_fork env) s = (fst (parent env (os_fork env) s), snd (parent env (os_fork env) s))"
      by simp
    from parent_dump [OF this] show ?thesis
    proof (elim disjE exE conjE)
      assume "\<forall>a\<in>set (fst (parent env (os_fork env) s)). \<not> is_dump a \<and> \<not> ok_setup a"
      then have "\<forall>a\<in>set tr. \<not> is_dump a \<and> \<not> ok_setup a" by (simp add: tr)
      then show ?thesis ..
    next
      fix l ma cm r zs
      assume "fst (parent env (os_fork env) s) = Setup_events_cpumask l ma (os_fork env) cm r
                  # (if verbose s \<noteq> 0
                     then [Print_event_list_attr
                            (lib_print_event_list_attr env (snd (lib_setup_events_cpumask env l ma (os_fork env) cm)))]
                     else []) @ zs"
        and "0 \<le> r" and "\<forall>z\<in>set zs. after_setup z \<and> \<not> is_dump z"
      moreover have "\<forall>x\<in>set [Pipe, Signal_ign_sigchld, Fork (os_fork env)]. before_setup x"
        by simp
      ultimately show ?thesis unfolding tr by blast
    qed
  qed
qed

lemma parse_default_verbose: "parse_default env s = (tr, Some s') \<Longrightarrow> verbose s' = verbose s"
  by (auto simp: parse_default_def split_def Let_def split: option.splits if_splits)

lemma main_dump:
  assumes "main env opts cmd = (tr, out)"
  shows "(\<forall>a\<in>set tr. \<not> is_dump a \<and> \<not> ok_setup a)
       \<or> (\<exists>xs l ma pid cm r zs.
             tr = xs @ Setup_events_cpumask l ma pid cm r
                  # (if Opt_v \<in> set opts
                     then [Print_event_list_attr
                            (lib_print_event_list_attr env (snd (lib_setup_events_cpumask env l ma pid cm)))]
                     else []) @ zs
             \<and> 0 \<le> r \<and> (\<forall>x\<in>set xs. before_setup x) \<and> (\<forall>z\<in>set zs. after_setup z \<and> \<not> is_dump z))"
    (is "?none tr \<or> ?dumped tr")
proof (cases "opt_loop env (init_locals env) opts")
  case (Pair tr1 res)
  show ?thesis
  proof (cases res)
    case (Inl st)
    then have "tr = tr1" using assms Pair by (simp add: main_def)
    moreover from opt_loop_Inl [OF Pair [unfolded Inl]] obtain xs b where
      "tr1 = xs @ [b]" and "\<forall>x\<in>set xs. ok_parse x" and "fail_parse b \<or> b = Usage"
      by blast
    ultimately have "?none tr"
      by (auto dest: ok_parse_D fail_parse_D) (cases b; simp)+
    then show ?thesis ..
  next
    case (Inr s)
    have tr1: "\<forall>a\<in>set tr1. ok_parse a"
      using opt_loop_Inr [OF Pair [unfolded Inr]] .
    have v: "verbose s \<noteq> 0 \<longleftrightarrow> Opt_v \<in> set opts"
      using opt_loop_verbose_iff [OF Pair [unfolded Inr]] .
    show ?thesis
    proof (cases "cmd = [] \<and> \<not> measure_all s")
      case True
      then have "tr = tr1 @ [Stderr specify_message]"
        using assms Pair Inr by (simp add: main_def)
      then have "?none tr" using tr1 by (auto dest: ok_parse_D)
      then show ?thesis ..
    next
      case False
      obtain tr2 res2 where pd: "parse_default env s = (tr2, res2)"
        by (cases "parse_default env s")
      show ?thesis
      proof (cases res2)
        case None
        then have "tr = tr1 @ tr2"
          using assms Pair Inr False pd by (simp add: main_def)
        moreover obtain a where "tr2 = [a]" and "fail_parse a"
          using parse_default_cases [OF pd] None by auto
        moreover have "\<not> ok_setup a" using \<open>fail_parse a\<close> by (cases a) simp_all
        ultimately have "?none tr" using tr1 by (auto dest: ok_parse_D fail_parse_D)
        then show ?thesis ..
      next
        case (Some s2)
        obtain tr3 where tr: "tr = (tr1 @ tr2) @ tr3" and rf: "run_forked env cmd s2 = (tr3, out)"
          using assms Pair Inr False pd Some
          by (auto simp: main_def split_def Let_def)
        have tr2: "\<forall>a\<in>set tr2. ok_parse a"
          using parse_default_cases [OF pd] Some by auto
        have pre: "\<forall>a\<in>set (tr1 @ tr2). before_setup a \<and> \<not> is_dump a \<and> \<not> ok_setup a"
          using tr1 tr2 by (auto dest: ok_parse_D)
        have v2: "verbose s2 \<noteq> 0 \<longleftrightarrow> Opt_v \<in> set opts"
          using parse_default_verbose [OF pd [unfolded Some]] v by simp
        from run_forked_dump [OF rf] show ?thesis
        proof (elim disjE exE conjE)
          assume "\<forall>a\<in>set tr3. \<not> is_dump a \<and> \<not> ok_setup a"
          then have "?none tr" using pre unfolding tr by auto
          then show ?thesis ..
        next
          fix xs l ma pid cm r zs
          assume tr3: "tr3 = xs @ Setup_events_cpumask l ma pid cm r
                  # (if verbose s2 \<noteq> 0
                     then [Print_event_list_attr
                            (lib_print_event_list_attr env (snd (lib_setup_events_cpumask env l ma pid cm)))]
                     else []) @ zs"
            and r: "0 \<le> r" and xs: "\<forall>x\<in>set xs. before_setup x"
            and zs: "\<forall>z\<in>set zs. after_setup z \<and> \<not> is_dump z"
          have "tr = (tr1 @ tr2 @ xs) @ Setup_events_cpumask l ma pid cm r
                  # (if Opt_v \<in> set opts
                     then [Print_event_list_attr
                            (lib_print_event_list_attr env (snd (lib_setup_events_cpumask env l ma pid cm)))]
                     else []) @ zs"
            unfolding tr tr3 using v2 by simp
          moreover have "\<forall>x\<in>set (tr1 @ tr2 @ xs). before_setup x"
            using pre xs by auto
          ultimately have "?dumped tr" using r zs by blast
          then show ?thesis ..
        qed
      qed
    qed
  qed
qed

text \<open>
  C8: a run with \<^verbatim>\<open>-v\<close> among its options and the same run without it end in the
  same way, and the run with \<^verbatim>\<open>-v\<close>, once the dump of \<^verbatim>\<open>print_event_list_attr\<close> is
  taken out of it, is the run without: the same calls with the same results, the same
  values read and the same lines printed. The run with \<^verbatim>\<open>-v\<close> either never gets to
  a successful \<^verbatim>\<open>setup_events_cpumask\<close> and dumps nothing, or it dumps once, the
  attributes of the list that \<^verbatim>\<open>setup_events_cpumask\<close> has just returned, straight
  after that call and before anything of the measurement.
\<close>

theorem verbose_no_effect:
  "snd (main env opts cmd) = snd (main env (filter (\<lambda>a. a \<noteq> Opt_v) opts) cmd)
   \<and> filter (\<lambda>a. \<not> is_dump a) (fst (main env opts cmd))
       = fst (main env (filter (\<lambda>a. a \<noteq> Opt_v) opts) cmd)
   \<and> (Opt_v \<in> set opts \<longrightarrow>
        (\<forall>a\<in>set (fst (main env opts cmd)). \<not> is_dump a \<and> \<not> ok_setup a)
        \<or> (\<exists>xs l ma pid cm r zs.
              fst (main env opts cmd)
                = xs @ [Setup_events_cpumask l ma pid cm r,
                        Print_event_list_attr
                          (lib_print_event_list_attr env (snd (lib_setup_events_cpumask env l ma pid cm)))]
                     @ zs
              \<and> 0 \<le> r \<and> (\<forall>x\<in>set xs. before_setup x)
              \<and> (\<forall>z\<in>set zs. after_setup z \<and> \<not> is_dump z)))"
proof (intro conjI impI)
  show "snd (main env opts cmd) = snd (main env (filter (\<lambda>a. a \<noteq> Opt_v) opts) cmd)"
    using main_strip_v by blast
  show "filter (\<lambda>a. \<not> is_dump a) (fst (main env opts cmd))
       = fst (main env (filter (\<lambda>a. a \<noteq> Opt_v) opts) cmd)"
    using main_strip_v by blast
next
  assume v: "Opt_v \<in> set opts"
  have "main env opts cmd = (fst (main env opts cmd), snd (main env opts cmd))"
    by simp
  from main_dump [OF this] v
  show "(\<forall>a\<in>set (fst (main env opts cmd)). \<not> is_dump a \<and> \<not> ok_setup a)
        \<or> (\<exists>xs l ma pid cm r zs.
              fst (main env opts cmd)
                = xs @ [Setup_events_cpumask l ma pid cm r,
                        Print_event_list_attr
                          (lib_print_event_list_attr env (snd (lib_setup_events_cpumask env l ma pid cm)))]
                     @ zs
              \<and> 0 \<le> r \<and> (\<forall>x\<in>set xs. before_setup x)
              \<and> (\<forall>z\<in>set zs. after_setup z \<and> \<not> is_dump z))"
    by simp
qed

theorem verbose_no_effect_witness:
  "Opt_v \<in> set [Opt_v, Opt_e ''cpu-cycles'', Opt_v]
   \<and> snd (main demo_env [Opt_v, Opt_e ''cpu-cycles'', Opt_v] [''true'']) = Exit 0
   \<and> aggr_values (fst (main demo_env [Opt_v, Opt_e ''cpu-cycles'', Opt_v] [''true'']))
       = aggr_values (fst (main demo_env [Opt_e ''cpu-cycles''] [''true'']))
   \<and> filter is_dump (fst (main demo_env [Opt_v, Opt_e ''cpu-cycles'', Opt_v] [''true'']))
       = [Print_event_list_attr [''cpu-cycles'']]
   \<and> (\<exists>xs a d zs.
         fst (main demo_env [Opt_v, Opt_e ''cpu-cycles'', Opt_v] [''true'']) = xs @ [a, d] @ zs
         \<and> ok_setup a \<and> is_dump d \<and> (\<forall>x\<in>set xs. before_setup x)
         \<and> (\<forall>z\<in>set zs. after_setup z \<and> \<not> is_dump z))"
proof -
  have v: "Opt_v \<in> set [Opt_v, Opt_e ''cpu-cycles'', Opt_v]"
    by simp
  have f: "filter (\<lambda>a. a \<noteq> Opt_v) [Opt_v, Opt_e ''cpu-cycles'', Opt_v] = [Opt_e ''cpu-cycles'']"
    by simp
  have out: "snd (main demo_env [Opt_e ''cpu-cycles''] [''true'']) = Exit 0"
    by code_simp
  have d: "filter is_dump (fst (main demo_env [Opt_v, Opt_e ''cpu-cycles'', Opt_v] [''true'']))
       = [Print_event_list_attr [''cpu-cycles'']]"
    by code_simp
  have a: "aggr_values (filter (\<lambda>a. \<not> is_dump a) tr) = aggr_values tr" for tr
    by (induction tr) (simp_all add: aggr_values_Cons, (case_tac a; simp)+)
  note inst = verbose_no_effect [of demo_env "[Opt_v, Opt_e ''cpu-cycles'', Opt_v]" "[''true'']"]
  have "aggr_values (fst (main demo_env [Opt_v, Opt_e ''cpu-cycles'', Opt_v] [''true'']))
          = aggr_values (filter (\<lambda>a. \<not> is_dump a)
              (fst (main demo_env [Opt_v, Opt_e ''cpu-cycles'', Opt_v] [''true''])))"
    by (simp add: a)
  also have "\<dots> = aggr_values (fst (main demo_env [Opt_e ''cpu-cycles''] [''true'']))"
    using inst by (simp only: f)
  finally have eq: "aggr_values (fst (main demo_env [Opt_v, Opt_e ''cpu-cycles'', Opt_v] [''true'']))
          = aggr_values (fst (main demo_env [Opt_e ''cpu-cycles''] [''true'']))" .
  have "snd (main demo_env [Opt_v, Opt_e ''cpu-cycles'', Opt_v] [''true''])
          = snd (main demo_env [Opt_e ''cpu-cycles''] [''true''])"
    using inst by (simp only: f)
  then have o: "snd (main demo_env [Opt_v, Opt_e ''cpu-cycles'', Opt_v] [''true'']) = Exit 0"
    using out by simp
  have "filter is_dump (fst (main demo_env [Opt_v, Opt_e ''cpu-cycles'', Opt_v] [''true''])) \<noteq> []"
    using d by simp
  then have some: "\<not> (\<forall>a\<in>set (fst (main demo_env [Opt_v, Opt_e ''cpu-cycles'', Opt_v] [''true''])).
                      \<not> is_dump a \<and> \<not> ok_setup a)"
    by (auto simp: filter_empty_conv)
  have shape: "\<exists>xs a d zs.
         fst (main demo_env [Opt_v, Opt_e ''cpu-cycles'', Opt_v] [''true'']) = xs @ [a, d] @ zs
         \<and> ok_setup a \<and> is_dump d \<and> (\<forall>x\<in>set xs. before_setup x)
         \<and> (\<forall>z\<in>set zs. after_setup z \<and> \<not> is_dump z)"
  proof -
    from inst v some obtain xs l ma pid cm r zs where
      "fst (main demo_env [Opt_v, Opt_e ''cpu-cycles'', Opt_v] [''true''])
         = xs @ [Setup_events_cpumask l ma pid cm r,
                 Print_event_list_attr (lib_print_event_list_attr demo_env
                   (snd (lib_setup_events_cpumask demo_env l ma pid cm)))] @ zs"
      and "0 \<le> r" and "\<forall>x\<in>set xs. before_setup x"
      and "\<forall>z\<in>set zs. after_setup z \<and> \<not> is_dump z"
      by blast
    moreover have "ok_setup (Setup_events_cpumask l ma pid cm r)"
      using \<open>0 \<le> r\<close> by simp
    moreover have "is_dump (Print_event_list_attr (lib_print_event_list_attr demo_env
                   (snd (lib_setup_events_cpumask demo_env l ma pid cm))))"
      by simp
    ultimately show ?thesis by blast
  qed
  from v o eq d shape show ?thesis by blast
qed

end
